theory Spec2Isabelle
  imports Main
begin

section \<open>Data model\<close>

text \<open>
  The class \<^verbatim>\<open>ApiHandler\<close> of \<^verbatim>\<open>src/handler/api.ts\<close> works on machine records,
  requests and responses whose types it imports from \<^verbatim>\<open>../database/schema\<close> and
  \<^verbatim>\<open>./model\<close>.
\<close>

text \<open>
  Modelled from the spec: the enum \<^verbatim>\<open>MachineStatus\<close> of \<^verbatim>\<open>../database/schema\<close>
  (section 3, "Machine Status Enum"); these are the four values that the spec lists and
  the handler names.
\<close>

datatype MachineStatus = AVAILABLE | AWAITING_DROPOFF | RUNNING | ERROR

text \<open>
  Modelled from the spec: the type \<^verbatim>\<open>MachineStateDocument\<close> of
  \<^verbatim>\<open>../database/schema\<close> (section 3, "MachineRecord"). The job id is absent until a
  reservation sets it.
\<close>

record MachineStateDocument =
  machineId :: string
  locationId :: string
  status :: MachineStatus
  jobId :: "string option"

text \<open>
  Modelled from the spec: the enum \<^verbatim>\<open>HttpResponseCode\<close> and the type
  \<^verbatim>\<open>MachineResponseModel\<close> of \<^verbatim>\<open>./model\<close> (section 6, "Response shape"); the
  handler builds its responses as \<^verbatim>\<open>{ statusCode, machine }\<close>.
\<close>

datatype HttpResponseCode =
  OK | NOT_FOUND | BAD_REQUEST | UNAUTHORIZED | INTERNAL_SERVER_ERROR | HARDWARE_ERROR

record MachineResponseModel =
  statusCode :: HttpResponseCode
  machine :: "MachineStateDocument option"

text \<open>
  Modelled from the spec: the type \<^verbatim>\<open>RequestModel\<close> of \<^verbatim>\<open>./model\<close> (section 6,
  "Inbound request"), with the fields the handler reads. \<open>httpMethod\<close> is the field
  \<^verbatim>\<open>method\<close>; \<open>reqLocationId\<close> and \<open>reqJobId\<close> are the body fields
  \<^verbatim>\<open>locationId\<close> and \<^verbatim>\<open>jobId\<close> that \<^verbatim>\<open>RequestMachineRequestModel\<close> adds.
\<close>

record RequestModel =
  httpMethod :: string
  path :: string
  token :: string
  reqLocationId :: string
  reqJobId :: string

text \<open>
  What a \<^verbatim>\<open>throw\<close> carries: a fault of the table, a fault of the device gateway, or
  the error that \<^verbatim>\<open>checkToken\<close> builds from a status code and a message.
\<close>

datatype exn =
  StoreFault
  | DeviceFault
  | HttpError HttpResponseCode string


section \<open>The collaborators\<close>

text \<open>
  The handler talks to four singletons: the machine table (\<^verbatim>\<open>this.db\<close>), the cache
  (\<^verbatim>\<open>this.cache\<close>), the identity provider (\<^verbatim>\<open>this.idp\<close>) and the smart machine
  client (\<^verbatim>\<open>this.smartMachine\<close>). It imports their classes from
  \<^verbatim>\<open>../database/table\<close>, \<^verbatim>\<open>../database/cache\<close>, \<^verbatim>\<open>../external/idp\<close> and
  \<^verbatim>\<open>../external/smart-machine\<close>.
\<close>

text \<open>
  Modelled from the spec: the state of the four collaborators (sections 2, 5 and 6).
  The table holds machine records in store order, keyed by machine id. The cache is an
  in-memory map from machine id to a copy of a record; its calls do not throw. The
  identity provider accepts the tokens of \<open>validTokens\<close>. A table call or a device
  call may throw: \<open>tableFaults\<close> says for each successive table call, and \<open>deviceFaults\<close> for each
  successive start-cycle command, whether it throws. Other parties (provisioning, the
  devices themselves) write to the table as well; the handler meets their changes at
  its reads: \<open>outside\<close> says for each successive table read whether it finds the table
  as the handler left it (\<open>None\<close>) or replaced by what the others made of it. A call
  made after its script has run out does not throw and finds no change.

  Three further components only observe the run: \<open>calls\<close> is the log of collaborator
  calls in the order the handler makes them; \<open>statusWrites\<close> lists, for each status
  write that reached a stored record, the id, the status the record had and the
  status written; \<open>observed\<close> holds per machine id the record the handler last read
  from the table, with the fields it has written since.
\<close>

datatype call =
  DbListMachinesAtLocation string
  | DbGetMachine string
  | DbUpdateMachineStatus string MachineStatus
  | DbUpdateMachineJobId string string
  | SmartMachineStartCycle string
  | CacheGet string
  | CachePut string MachineStateDocument

record world =
  db :: "MachineStateDocument list"
  cache :: "string \<Rightarrow> MachineStateDocument option"
  validTokens :: "string list"
  tableFaults :: "bool list"
  deviceFaults :: "bool list"
  outside :: "MachineStateDocument list option list"
  calls :: "call list"
  statusWrites :: "(string \<times> MachineStatus \<times> MachineStatus) list"
  observed :: "string \<Rightarrow> MachineStateDocument option"

type_synonym 'a io = "world \<Rightarrow> (exn + 'a) \<times> world"

subsection \<open>Sequencing, throw and try/catch\<close>

definition returnE :: "'a \<Rightarrow> 'a io" where
  "returnE x w = (Inr x, w)"

definition throwE :: "exn \<Rightarrow> 'a io" where
  "throwE e w = (Inl e, w)"

definition bindE :: "'a io \<Rightarrow> ('a \<Rightarrow> 'b io) \<Rightarrow> 'b io" where
  "bindE m k w = (case m w of (Inl e, w') \<Rightarrow> (Inl e, w') | (Inr x, w') \<Rightarrow> k x w')"

definition tryCatch :: "'a io \<Rightarrow> (exn \<Rightarrow> world \<Rightarrow> 'a \<times> world) \<Rightarrow> world \<Rightarrow> 'a \<times> world" where
  "tryCatch body handler w =
     (case body w of (Inr x, w') \<Rightarrow> (x, w') | (Inl e, w') \<Rightarrow> handler e w')"

subsection \<open>The outside world\<close>

text \<open>
  Modelled from the spec: faults of the table and changes by other parties (sections 4.1
  and 7: any table access may fault; section 3: records are provisioned, deprovisioned
  and marked faulty outside this workflow). A table call is logged and takes the next
  entry of \<open>tableFaults\<close>: the result is whether the call throws, and the world in which
  it goes on. A table read first meets what the other parties did to the table.
\<close>

definition tableCall :: "call \<Rightarrow> world \<Rightarrow> bool \<times> world" where
  "tableCall c w =
     (case tableFaults w of
        [] \<Rightarrow> (False, w\<lparr>calls := calls w @ [c]\<rparr>)
      | t # ts \<Rightarrow> (t, w\<lparr>calls := calls w @ [c], tableFaults := ts\<rparr>))"

definition outsideStep :: "world \<Rightarrow> world" where
  "outsideStep w =
     (case outside w of
        [] \<Rightarrow> w
      | None # os \<Rightarrow> w\<lparr>outside := os\<rparr>
      | Some d # os \<Rightarrow> w\<lparr>db := d, outside := os\<rparr>)"

subsection \<open>Machine table\<close>

text \<open>
  Modelled from the spec: the reads of \<^verbatim>\<open>MachineStateTable\<close> (section 6:
  \<^verbatim>\<open>Store.listMachinesAtLocation\<close> gives the list of the records of a location,
  \<^verbatim>\<open>Store.getMachine\<close> the record of an id or nothing). A read that returns records notes
  them in \<open>observed\<close>.
\<close>

definition lookupMachine :: "string \<Rightarrow> MachineStateDocument list \<Rightarrow> MachineStateDocument option" where
  "lookupMachine mid ms = find (\<lambda>m. machineId m = mid) ms"

definition observeAll ::
  "MachineStateDocument list \<Rightarrow> (string \<Rightarrow> MachineStateDocument option)
     \<Rightarrow> (string \<Rightarrow> MachineStateDocument option)" where
  "observeAll ms obs = foldl (\<lambda>ob m. ob(machineId m \<mapsto> m)) obs ms"

definition listMachinesAtLocation :: "string \<Rightarrow> (MachineStateDocument list) io" where
  "listMachinesAtLocation loc w =
     (case tableCall (DbListMachinesAtLocation loc) (outsideStep w) of
        (True, w1) \<Rightarrow> (Inl StoreFault, w1)
      | (False, w1) \<Rightarrow>
          (let ms = filter (\<lambda>m. locationId m = loc) (db w1)
           in (Inr ms, w1\<lparr>observed := observeAll ms (observed w1)\<rparr>)))"

definition getMachine :: "string \<Rightarrow> (MachineStateDocument option) io" where
  "getMachine mid w =
     (case tableCall (DbGetMachine mid) (outsideStep w) of
        (True, w1) \<Rightarrow> (Inl StoreFault, w1)
      | (False, w1) \<Rightarrow>
          (case lookupMachine mid (db w1) of
             None \<Rightarrow> (Inr None, w1)
           | Some m \<Rightarrow> (Inr (Some m), w1\<lparr>observed := (observed w1)(mid \<mapsto> m)\<rparr>)))"

text \<open>
  Modelled from the spec: the writes of \<^verbatim>\<open>MachineStateTable\<close> (section 6:
  \<^verbatim>\<open>Store.updateMachineStatus\<close> and \<^verbatim>\<open>Store.updateMachineJobId\<close>; section 4.1: two
  independent field updates, each on the record of the id). \<open>setStatus\<close> and \<open>setJobId\<close> are the updates on one
  stored record. A status write that is applied is noted in \<open>statusWrites\<close> with the
  status it replaces.
\<close>

definition setStatus :: "string \<Rightarrow> MachineStatus \<Rightarrow> MachineStateDocument \<Rightarrow> MachineStateDocument" where
  "setStatus mid s m = (if machineId m = mid then m\<lparr>status := s\<rparr> else m)"

definition setJobId :: "string \<Rightarrow> string \<Rightarrow> MachineStateDocument \<Rightarrow> MachineStateDocument" where
  "setJobId mid j m = (if machineId m = mid then m\<lparr>jobId := Some j\<rparr> else m)"

definition updateMachineStatus :: "string \<Rightarrow> MachineStatus \<Rightarrow> unit io" where
  "updateMachineStatus mid s w =
     (case tableCall (DbUpdateMachineStatus mid s) w of
        (True, w1) \<Rightarrow> (Inl StoreFault, w1)
      | (False, w1) \<Rightarrow>
          (Inr (),
           w1\<lparr>db := map (setStatus mid s) (db w1),
              statusWrites := statusWrites w1 @
                map (\<lambda>m. (mid, status m, s)) (filter (\<lambda>m. machineId m = mid) (db w1)),
              observed := (case observed w1 mid of
                             None \<Rightarrow> observed w1
                           | Some r \<Rightarrow> (observed w1)(mid \<mapsto> r\<lparr>status := s\<rparr>))\<rparr>))"

definition updateMachineJobId :: "string \<Rightarrow> string \<Rightarrow> unit io" where
  "updateMachineJobId mid j w =
     (case tableCall (DbUpdateMachineJobId mid j) w of
        (True, w1) \<Rightarrow> (Inl StoreFault, w1)
      | (False, w1) \<Rightarrow>
          (Inr (),
           w1\<lparr>db := map (setJobId mid j) (db w1),
              observed := (case observed w1 mid of
                             None \<Rightarrow> observed w1
                           | Some r \<Rightarrow> (observed w1)(mid \<mapsto> r\<lparr>jobId := Some j\<rparr>))\<rparr>))"

subsection \<open>Cache, device gateway, identity provider\<close>

text \<open>
  Modelled from the spec: \<^verbatim>\<open>DataCache.get\<close> and \<^verbatim>\<open>DataCache.put\<close> (section 6:
  \<^verbatim>\<open>Cache.get\<close>, \<^verbatim>\<open>Cache.put\<close>; section 3: the cache holds a copy of a record),
  \<^verbatim>\<open>SmartMachineClient.startCycle\<close> (\<^verbatim>\<open>DeviceGateway.startCycle\<close>: raises on any
  device-side problem) and \<^verbatim>\<open>IdentityProviderClient.validateToken\<close>
  (\<^verbatim>\<open>IdentityGateway.validateToken\<close>: a boolean).
\<close>

definition cacheGet :: "string \<Rightarrow> (MachineStateDocument option) io" where
  "cacheGet mid w = (Inr (cache w mid), w\<lparr>calls := calls w @ [CacheGet mid]\<rparr>)"

definition cachePut :: "string \<Rightarrow> MachineStateDocument \<Rightarrow> unit io" where
  "cachePut mid r w =
     (Inr (), w\<lparr>cache := (cache w)(mid \<mapsto> r), calls := calls w @ [CachePut mid r]\<rparr>)"

definition startCycle :: "string \<Rightarrow> unit io" where
  "startCycle mid w =
     (case deviceFaults w of
        [] \<Rightarrow> (Inr (), w\<lparr>calls := calls w @ [SmartMachineStartCycle mid]\<rparr>)
      | t # ts \<Rightarrow>
          (if t then Inl DeviceFault else Inr (),
           w\<lparr>calls := calls w @ [SmartMachineStartCycle mid], deviceFaults := ts\<rparr>))"

definition validateToken :: "string \<Rightarrow> world \<Rightarrow> bool" where
  "validateToken t w = (t \<in> set (validTokens w))"


section \<open>The handler\<close>

text \<open>\<^verbatim>\<open>checkToken\<close>: throws an error carrying UNAUTHORIZED when the token is invalid.\<close>

definition checkToken :: "string \<Rightarrow> unit io" where
  "checkToken t w =
     (if \<not> validateToken t w then throwE (HttpError UNAUTHORIZED ''Invalid token'') w
      else returnE () w)"

definition internalServerError :: MachineResponseModel where
  "internalServerError = \<lparr>statusCode = INTERNAL_SERVER_ERROR, machine = None\<rparr>"

text \<open>\<^verbatim>\<open>handleRequestMachine\<close>: the body of its \<^verbatim>\<open>try\<close>, then the \<^verbatim>\<open>catch\<close>.\<close>

definition handleRequestMachine_try :: "string \<Rightarrow> string \<Rightarrow> MachineResponseModel io" where
  "handleRequestMachine_try loc job =
     bindE (listMachinesAtLocation loc) (\<lambda>machines.
       case find (\<lambda>m. status m = AVAILABLE) machines of
         None \<Rightarrow> returnE \<lparr>statusCode = NOT_FOUND, machine = None\<rparr>
       | Some availableMachine \<Rightarrow>
           bindE (updateMachineStatus (machineId availableMachine) AWAITING_DROPOFF) (\<lambda>_.
           bindE (updateMachineJobId (machineId availableMachine) job) (\<lambda>_.
           bindE (getMachine (machineId availableMachine)) (\<lambda>updatedMachine.
             case updatedMachine of
               Some u \<Rightarrow>
                 bindE (cachePut (machineId availableMachine) u) (\<lambda>_.
                 returnE \<lparr>statusCode = OK, machine = Some u\<rparr>)
             | None \<Rightarrow> returnE internalServerError))))"

definition handleRequestMachine :: "string \<Rightarrow> string \<Rightarrow> world \<Rightarrow> MachineResponseModel \<times> world" where
  "handleRequestMachine loc job =
     tryCatch (handleRequestMachine_try loc job) (\<lambda>error w. (internalServerError, w))"

text \<open>\<^verbatim>\<open>handleGetMachine\<close>.\<close>

definition handleGetMachine_try :: "string \<Rightarrow> MachineResponseModel io" where
  "handleGetMachine_try mid =
     bindE (cacheGet mid) (\<lambda>cachedMachine.
       case cachedMachine of
         Some c \<Rightarrow> returnE \<lparr>statusCode = OK, machine = Some c\<rparr>
       | None \<Rightarrow>
           bindE (getMachine mid) (\<lambda>machine'.
             case machine' of
               None \<Rightarrow> returnE \<lparr>statusCode = NOT_FOUND, machine = None\<rparr>
             | Some m \<Rightarrow>
                 bindE (cachePut mid m) (\<lambda>_.
                 returnE \<lparr>statusCode = OK, machine = Some m\<rparr>)))"

definition handleGetMachine :: "string \<Rightarrow> world \<Rightarrow> MachineResponseModel \<times> world" where
  "handleGetMachine mid =
     tryCatch (handleGetMachine_try mid) (\<lambda>error w. (internalServerError, w))"

text \<open>
  \<^verbatim>\<open>handleStartMachine\<close>. The outer \<^verbatim>\<open>try\<close> is \<open>handleStartMachine_try\<close>. Its
  \<^verbatim>\<open>catch\<close> block is \<open>handleStartMachine_catch\<close>: an inner \<^verbatim>\<open>try\<close> that either
  returns the hardware-error response or falls through, an inner \<^verbatim>\<open>catch\<close> that
  ignores the error, and the final return of the generic server error.
\<close>

definition handleStartMachine_try :: "string \<Rightarrow> MachineResponseModel io" where
  "handleStartMachine_try mid =
     bindE (getMachine mid) (\<lambda>machine'.
       case machine' of
         None \<Rightarrow> returnE \<lparr>statusCode = NOT_FOUND, machine = None\<rparr>
       | Some m \<Rightarrow>
           if status m \<noteq> AWAITING_DROPOFF
           then returnE \<lparr>statusCode = BAD_REQUEST, machine = Some m\<rparr>
           else
             bindE (startCycle mid) (\<lambda>_.
             bindE (updateMachineStatus mid RUNNING) (\<lambda>_.
             bindE (getMachine mid) (\<lambda>updatedMachine.
               case updatedMachine of
                 Some u \<Rightarrow>
                   bindE (cachePut mid u) (\<lambda>_.
                   returnE \<lparr>statusCode = OK, machine = Some u\<rparr>)
               | None \<Rightarrow> returnE internalServerError))))"

definition handleStartMachine_inner :: "string \<Rightarrow> (MachineResponseModel option) io" where
  "handleStartMachine_inner mid =
     bindE (getMachine mid) (\<lambda>machine'.
       case machine' of
         None \<Rightarrow> returnE None
       | Some m \<Rightarrow>
           if status m = ERROR
           then
             bindE (updateMachineStatus mid ERROR) (\<lambda>_.
             bindE (cachePut mid m) (\<lambda>_.
             returnE (Some \<lparr>statusCode = HARDWARE_ERROR, machine = Some m\<rparr>)))
           else returnE None)"

definition handleStartMachine_catch :: "string \<Rightarrow> world \<Rightarrow> MachineResponseModel \<times> world" where
  "handleStartMachine_catch mid w =
     (case tryCatch (handleStartMachine_inner mid) (\<lambda>innerError w'. (None, w')) w of
        (Some response, w') \<Rightarrow> (response, w')
      | (None, w') \<Rightarrow> (internalServerError, w'))"

definition handleStartMachine :: "string \<Rightarrow> world \<Rightarrow> MachineResponseModel \<times> world" where
  "handleStartMachine mid =
     tryCatch (handleStartMachine_try mid) (\<lambda>error. handleStartMachine_catch mid)"

subsection \<open>Routing\<close>

text \<open>
  The two path patterns \<^verbatim>\<open>/^\/machine\/([a-zA-Z0-9-]+)$/\<close> and
  \<^verbatim>\<open>/^\/machine\/([a-zA-Z0-9-]+)\/start$/\<close>; each returns the captured id.
\<close>

definition isIdChar :: "char \<Rightarrow> bool" where
  "isIdChar c =
     (c \<in> set ''abcdefghijklmnopqrstuvwxyzABCDEFGHIJKLMNOPQRSTUVWXYZ0123456789-'')"

definition stripPrefix :: "string \<Rightarrow> string \<Rightarrow> string option" where
  "stripPrefix p s = (if take (length p) s = p then Some (drop (length p) s) else None)"

definition stripSuffix :: "string \<Rightarrow> string \<Rightarrow> string option" where
  "stripSuffix p s =
     (if length p \<le> length s \<and> drop (length s - length p) s = p
      then Some (take (length s - length p) s) else None)"

definition matchId :: "string \<Rightarrow> string option" where
  "matchId s = (if s \<noteq> [] \<and> list_all isIdChar s then Some s else None)"

definition getMachineMatch :: "string \<Rightarrow> string option" where
  "getMachineMatch p =
     (case stripPrefix ''/machine/'' p of None \<Rightarrow> None | Some rest \<Rightarrow> matchId rest)"

definition startMachineMatch :: "string \<Rightarrow> string option" where
  "startMachineMatch p =
     (case stripPrefix ''/machine/'' p of
        None \<Rightarrow> None
      | Some rest \<Rightarrow>
          (case stripSuffix ''/start'' rest of None \<Rightarrow> None | Some i \<Rightarrow> matchId i))"

definition liftI :: "(world \<Rightarrow> 'a \<times> world) \<Rightarrow> 'a io" where
  "liftI f w = (case f w of (x, w') \<Rightarrow> (Inr x, w'))"

text \<open>\<^verbatim>\<open>handle\<close>: the token check is outside every \<^verbatim>\<open>try\<close>, so its error propagates.\<close>

definition handle :: "RequestModel \<Rightarrow> MachineResponseModel io" where
  "handle request =
     bindE (checkToken (token request)) (\<lambda>_.
       if httpMethod request = ''POST'' \<and> path request = ''/machine/request''
       then liftI (handleRequestMachine (reqLocationId request) (reqJobId request))
       else
         (case (httpMethod request = ''GET'', getMachineMatch (path request)) of
            (True, Some mid) \<Rightarrow> liftI (handleGetMachine mid)
          | _ \<Rightarrow>
              (case (httpMethod request = ''POST'', startMachineMatch (path request)) of
                 (True, Some mid) \<Rightarrow> liftI (handleStartMachine mid)
               | _ \<Rightarrow> returnE internalServerError)))"

section \<open>Notions used in the statements\<close>

text \<open>The table as the next read finds it.\<close>

definition tableFound :: "world \<Rightarrow> MachineStateDocument list" where
  "tableFound w = db (outsideStep w)"

text \<open>The next \<open>n\<close> table calls do not throw.\<close>

definition quietTable :: "nat \<Rightarrow> world \<Rightarrow> bool" where
  "quietTable n w = list_all (\<lambda>t. \<not> t) (take n (tableFaults w))"

text \<open>The next table read finds the table as the handler left it.\<close>

definition noOutsideChange :: "world \<Rightarrow> bool" where
  "noOutsideChange w = (case outside w of Some d # _ \<Rightarrow> False | _ \<Rightarrow> True)"

text \<open>The table holds at most one record per machine id.\<close>

definition keyed :: "MachineStateDocument list \<Rightarrow> bool" where
  "keyed ms = distinct (map machineId ms)"

subsection \<open>Status writes\<close>

text \<open>
  The edges of the status state machine, and what a recorded status write
  \<open>(id, old, new)\<close> must satisfy: it leaves the status as it is or follows an edge, and it
  never writes AVAILABLE.
\<close>

definition allowedEdge :: "MachineStatus \<Rightarrow> MachineStatus \<Rightarrow> bool" where
  "allowedEdge old new =
     ((old = AVAILABLE \<and> new = AWAITING_DROPOFF)
      \<or> (old = AWAITING_DROPOFF \<and> new = RUNNING)
      \<or> (old = AWAITING_DROPOFF \<and> new = ERROR))"

definition legalWrite :: "string \<times> MachineStatus \<times> MachineStatus \<Rightarrow> bool" where
  "legalWrite t = (case t of (i, old, new) \<Rightarrow> (old = new \<or> allowedEdge old new) \<and> new \<noteq> AVAILABLE)"

text \<open>The status writes recorded between two worlds of one run.\<close>

definition newStatusWrites :: "world \<Rightarrow> world \<Rightarrow> (string \<times> MachineStatus \<times> MachineStatus) list" where
  "newStatusWrites w w' = drop (length (statusWrites w)) (statusWrites w')"

text \<open>The table is keyed by machine id, and the other parties keep it so.\<close>

definition keyedChange :: "MachineStateDocument list option \<Rightarrow> bool" where
  "keyedChange d = (case d of None \<Rightarrow> True | Some ms \<Rightarrow> keyed ms)"

definition keyedWorld :: "world \<Rightarrow> bool" where
  "keyedWorld w = (keyed (db w) \<and> list_all keyedChange (outside w))"

text \<open>
  Assertions about runs: from a world that satisfies \<open>P\<close>, the action ends in a world
  that satisfies \<open>Q\<close> of its result when it returns, and \<open>E\<close> when it throws.
\<close>

definition valid :: "(world \<Rightarrow> bool) \<Rightarrow> 'a io \<Rightarrow> ('a \<Rightarrow> world \<Rightarrow> bool) \<Rightarrow> (world \<Rightarrow> bool) \<Rightarrow> bool" where
  "valid P m Q E = (\<forall>w. P w \<longrightarrow> (case m w of (Inl e, w') \<Rightarrow> E w' | (Inr x, w') \<Rightarrow> Q x w'))"

definition validT :: "(world \<Rightarrow> bool) \<Rightarrow> (world \<Rightarrow> 'a \<times> world) \<Rightarrow> ('a \<Rightarrow> world \<Rightarrow> bool) \<Rightarrow> bool" where
  "validT P f Q = (\<forall>w. P w \<longrightarrow> (case f w of (x, w') \<Rightarrow> Q x w'))"

text \<open>The invariant behind claim C3: the status writes recorded since \<open>base\<close> are legal.\<close>

definition legalSince :: "(string \<times> MachineStatus \<times> MachineStatus) list \<Rightarrow> world \<Rightarrow> bool" where
  "legalSince base w =
     (keyedWorld w \<and> (\<exists>ts. statusWrites w = base @ ts \<and> list_all legalWrite ts))"

subsection \<open>Cache coherence\<close>

text \<open>
  No table call throws and no change by other parties is met, for the rest of the run.
  (Device failures are not excluded.)
\<close>

definition calm :: "world \<Rightarrow> bool" where
  "calm w = (list_all (\<lambda>t. \<not> t) (tableFaults w) \<and> list_all (\<lambda>d. d = None) (outside w))"



subsection \<open>Example worlds\<close>

definition world0 :: world where
  "world0 = \<lparr>db = [], cache = (\<lambda>_. None), validTokens = [''secret''], tableFaults = [],
     deviceFaults = [], outside = [], calls = [], statusWrites = [], observed = (\<lambda>_. None)\<rparr>"

definition machineAt :: "string \<Rightarrow> string \<Rightarrow> MachineStatus \<Rightarrow> MachineStateDocument" where
  "machineAt mid loc s = \<lparr>machineId = mid, locationId = loc, status = s, jobId = None\<rparr>"

definition runningWorld :: world where
  "runningWorld = world0\<lparr>db := [machineAt ''m1'' ''L1'' RUNNING]\<rparr>"

definition cachedWorld :: world where
  "cachedWorld = runningWorld\<lparr>cache := [''m1'' \<mapsto> machineAt ''m1'' ''L1'' AWAITING_DROPOFF]\<rparr>"

definition errorWorld :: world where
  "errorWorld = world0\<lparr>db := [machineAt ''m1'' ''L1'' ERROR], tableFaults := [True]\<rparr>"

definition awaitingWorld :: world where
  "awaitingWorld = world0\<lparr>db := [machineAt ''m1'' ''L1'' AWAITING_DROPOFF]\<rparr>"

definition availableWorld :: world where
  "availableWorld = world0\<lparr>db := [machineAt ''m0'' ''L1'' RUNNING, machineAt ''m1'' ''L1'' AVAILABLE,
      machineAt ''m2'' ''L1'' AVAILABLE]\<rparr>"

text \<open>
  The device fails to start the cycle, and the re-read finds the machine marked ERROR in
  the table.
\<close>

definition faultyDeviceWorld :: world where
  "faultyDeviceWorld = awaitingWorld\<lparr>deviceFaults := [True],
     outside := [None, Some [machineAt ''m1'' ''L1'' ERROR]]\<rparr>"

text \<open>The machine is deprovisioned while its cycle is being started.\<close>

definition vanishingWorld :: world where
  "vanishingWorld = awaitingWorld\<lparr>outside := [None, Some []]\<rparr>"



section \<open>What a single collaborator call changes\<close>

lemmas collaborator_defs =
  listMachinesAtLocation_def getMachine_def updateMachineStatus_def updateMachineJobId_def
  startCycle_def cacheGet_def cachePut_def tableCall_def outsideStep_def lookupMachine_def
  observeAll_def setStatus_def setJobId_def Let_def

lemmas handler_defs =
  handleRequestMachine_def handleRequestMachine_try_def handleGetMachine_def
  handleGetMachine_try_def handleStartMachine_def handleStartMachine_try_def
  handleStartMachine_catch_def handleStartMachine_inner_def tryCatch_def bindE_def returnE_def
  throwE_def internalServerError_def

lemmas example_defs = world0_def machineAt_def awaitingWorld_def availableWorld_def

lemma withSnd: "fst p = a \<Longrightarrow> p = (a, snd p)"
  by auto

lemma tableCall_fields:
  "tableCall c w = (b, w1) \<Longrightarrow>
     calls w1 = calls w @ [c] \<and> cache w1 = cache w \<and> validTokens w1 = validTokens w
     \<and> statusWrites w1 = statusWrites w \<and> observed w1 = observed w \<and> db w1 = db w
     \<and> tableFaults w1 = tl (tableFaults w) \<and> deviceFaults w1 = deviceFaults w
     \<and> outside w1 = outside w"
  by (auto simp: tableCall_def split: list.splits)

lemma outsideStep_fields:
  "calls (outsideStep w) = calls w \<and> cache (outsideStep w) = cache w
     \<and> validTokens (outsideStep w) = validTokens w
     \<and> statusWrites (outsideStep w) = statusWrites w \<and> observed (outsideStep w) = observed w
     \<and> tableFaults (outsideStep w) = tableFaults w \<and> deviceFaults (outsideStep w) = deviceFaults w
     \<and> outside (outsideStep w) = tl (outside w)"
  by (auto simp: outsideStep_def split: list.splits option.splits)

lemma listMachinesAtLocation_fields:
  "listMachinesAtLocation loc w = (r, w1) \<Longrightarrow>
     calls w1 = calls w @ [DbListMachinesAtLocation loc] \<and> cache w1 = cache w
     \<and> validTokens w1 = validTokens w \<and> statusWrites w1 = statusWrites w
     \<and> db w1 = tableFound w"
  by (auto simp: listMachinesAtLocation_def Let_def tableFound_def outsideStep_fields
      split: prod.splits bool.splits dest!: tableCall_fields)

lemma listMachinesAtLocation_result:
  "listMachinesAtLocation loc w = (Inr ms, w1) \<Longrightarrow>
     ms = filter (\<lambda>m. locationId m = loc) (db w1) \<and> outside w1 = tl (outside w)
     \<and> tableFaults w1 = tl (tableFaults w) \<and> deviceFaults w1 = deviceFaults w"
  by (auto simp: listMachinesAtLocation_def Let_def outsideStep_fields
      split: prod.splits bool.splits dest!: tableCall_fields)

lemma getMachine_fields:
  "getMachine mid w = (r, w1) \<Longrightarrow>
     calls w1 = calls w @ [DbGetMachine mid] \<and> cache w1 = cache w
     \<and> validTokens w1 = validTokens w \<and> statusWrites w1 = statusWrites w
     \<and> db w1 = tableFound w"
  by (auto simp: getMachine_def Let_def tableFound_def outsideStep_fields
      split: prod.splits bool.splits option.splits dest!: tableCall_fields)

lemma getMachine_result:
  "getMachine mid w = (Inr rr, w1) \<Longrightarrow> rr = lookupMachine mid (tableFound w)"
  by (auto simp: getMachine_def tableFound_def split: prod.splits bool.splits option.splits
      dest!: tableCall_fields)

lemma updateMachineStatus_fields:
  "updateMachineStatus mid s w = (r, w1) \<Longrightarrow>
     calls w1 = calls w @ [DbUpdateMachineStatus mid s] \<and> cache w1 = cache w
     \<and> validTokens w1 = validTokens w \<and> outside w1 = outside w"
  by (auto simp: updateMachineStatus_def Let_def split: prod.splits bool.splits option.splits
      dest!: tableCall_fields)

lemma updateMachineStatus_db:
  "updateMachineStatus mid s w = (Inr u, w1) \<Longrightarrow> db w1 = map (setStatus mid s) (db w)"
  by (auto simp: updateMachineStatus_def split: prod.splits bool.splits dest!: tableCall_fields)

lemma updateMachineJobId_fields:
  "updateMachineJobId mid j w = (r, w1) \<Longrightarrow>
     calls w1 = calls w @ [DbUpdateMachineJobId mid j] \<and> cache w1 = cache w
     \<and> validTokens w1 = validTokens w \<and> outside w1 = outside w \<and> statusWrites w1 = statusWrites w"
  by (auto simp: updateMachineJobId_def Let_def split: prod.splits bool.splits option.splits
      dest!: tableCall_fields)

lemma startCycle_fields:
  "startCycle mid w = (r, w1) \<Longrightarrow>
     calls w1 = calls w @ [SmartMachineStartCycle mid] \<and> cache w1 = cache w \<and> db w1 = db w
     \<and> validTokens w1 = validTokens w \<and> outside w1 = outside w \<and> statusWrites w1 = statusWrites w
     \<and> tableFaults w1 = tableFaults w \<and> observed w1 = observed w"
  by (auto simp: startCycle_def split: list.splits if_splits)

subsection \<open>Records in the table\<close>

lemma setStatus_fields:
  "machineId (setStatus mid s m) = machineId m \<and> locationId (setStatus mid s m) = locationId m
   \<and> jobId (setStatus mid s m) = jobId m
   \<and> status (setStatus mid s m) = (if machineId m = mid then s else status m)"
  by (simp add: setStatus_def)

lemma setJobId_fields:
  "machineId (setJobId mid j m) = machineId m \<and> locationId (setJobId mid j m) = locationId m
   \<and> status (setJobId mid j m) = status m
   \<and> jobId (setJobId mid j m) = (if machineId m = mid then Some j else jobId m)"
  by (simp add: setJobId_def)

lemma status_after_update:
  assumes "x \<in> set (map (setStatus mid s) ms)" and "machineId x = mid"
  shows "status x = s"
proof -
  from assms(1) obtain m where "x = setStatus mid s m" by auto
  with assms(2) show ?thesis by (simp add: setStatus_def split: if_splits)
qed

lemma find_first:
  "(\<forall>x \<in> set before. \<not> P x) \<Longrightarrow> P m \<Longrightarrow> find P (before @ m # after) = Some m"
  by (induction before) auto

lemma lookupMachine_id: "lookupMachine mid ms = Some x \<Longrightarrow> machineId x = mid \<and> x \<in> set ms"
  by (induction ms) (auto simp: lookupMachine_def split: if_splits)

lemma lookupMachine_map:
  "(\<And>m. machineId (f m) = machineId m) \<Longrightarrow>
   lookupMachine mid (map f ms) = map_option f (lookupMachine mid ms)"
  by (induction ms) (auto simp: lookupMachine_def)

lemma lookupMachine_member:
  "m \<in> set ms \<Longrightarrow> \<exists>x. lookupMachine (machineId m) ms = Some x"
  by (induction ms) (auto simp: lookupMachine_def)

lemma lookupMachine_keyed:
  "keyed ms \<Longrightarrow> m \<in> set ms \<Longrightarrow> lookupMachine (machineId m) ms = Some m"
  by (induction ms) (auto simp: lookupMachine_def keyed_def)

subsection \<open>Table calls that do not throw\<close>

lemma tableCall_quiet:
  "quietTable (Suc n) w \<Longrightarrow>
     tableCall c w = (False, w\<lparr>calls := calls w @ [c], tableFaults := tl (tableFaults w)\<rparr>)"
  by (cases "tableFaults w") (auto simp: tableCall_def quietTable_def)

lemma quietTable_tl:
  "quietTable (Suc n) w \<Longrightarrow> tableFaults w' = tl (tableFaults w) \<Longrightarrow> quietTable n w'"
  by (cases "tableFaults w") (auto simp: quietTable_def)

lemma updateMachineStatus_quiet:
  assumes "quietTable (Suc n) w"
  shows "\<exists>w'. updateMachineStatus mid s w = (Inr (), w') \<and> db w' = map (setStatus mid s) (db w)
     \<and> quietTable n w' \<and> outside w' = outside w \<and> cache w' = cache w"
proof -
  let ?w1 = "w\<lparr>calls := calls w @ [DbUpdateMachineStatus mid s], tableFaults := tl (tableFaults w)\<rparr>"
  have "quietTable n ?w1" using quietTable_tl[OF assms, of ?w1] by simp
  then show ?thesis
    by (simp add: updateMachineStatus_def tableCall_quiet[OF assms] quietTable_def)
qed

lemma updateMachineJobId_quiet:
  assumes "quietTable (Suc n) w"
  shows "\<exists>w'. updateMachineJobId mid j w = (Inr (), w') \<and> db w' = map (setJobId mid j) (db w)
     \<and> quietTable n w' \<and> outside w' = outside w \<and> cache w' = cache w"
proof -
  let ?w1 = "w\<lparr>calls := calls w @ [DbUpdateMachineJobId mid j], tableFaults := tl (tableFaults w)\<rparr>"
  have "quietTable n ?w1" using quietTable_tl[OF assms, of ?w1] by simp
  then show ?thesis
    by (simp add: updateMachineJobId_def tableCall_quiet[OF assms] quietTable_def)
qed

lemma outsideStep_noChange: "noOutsideChange w \<Longrightarrow> db (outsideStep w) = db w"
  by (auto simp: noOutsideChange_def outsideStep_def split: list.splits option.splits)

lemma getMachine_quiet:
  assumes "quietTable (Suc n) w" and "noOutsideChange w"
  shows "\<exists>w'. getMachine mid w = (Inr (lookupMachine mid (db w)), w') \<and> cache w' = cache w"
proof -
  have q: "quietTable (Suc n) (outsideStep w)"
    using assms(1) by (simp add: quietTable_def outsideStep_fields)
  show ?thesis
    using outsideStep_noChange[OF assms(2)]
    by (simp add: getMachine_def tableCall_quiet[OF q] outsideStep_fields split: option.splits)
qed

subsection \<open>The two blocks of StartMachine\<close>

text \<open>The \<^verbatim>\<open>catch\<close> block of \<^verbatim>\<open>handleStartMachine\<close>, case by case.\<close>

lemma handleStartMachine_catch_cases:
  "handleStartMachine_catch mid wc =
     (case getMachine mid wc of
        (Inl e, w3) \<Rightarrow> (internalServerError, w3)
      | (Inr None, w3) \<Rightarrow> (internalServerError, w3)
      | (Inr (Some r), w3) \<Rightarrow>
          if status r = ERROR
          then (case updateMachineStatus mid ERROR w3 of
                  (Inl e, w4) \<Rightarrow> (internalServerError, w4)
                | (Inr u, w4) \<Rightarrow>
                    (\<lparr>statusCode = HARDWARE_ERROR, machine = Some r\<rparr>,
                     w4\<lparr>cache := (cache w4)(mid \<mapsto> r), calls := calls w4 @ [CachePut mid r]\<rparr>))
          else (internalServerError, w3))"
  by (simp add: handleStartMachine_catch_def tryCatch_def handleStartMachine_inner_def bindE_def
      returnE_def cachePut_def split: prod.splits sum.splits option.splits)

text \<open>
  Once the machine has been read with status AWAITING_DROPOFF, the \<^verbatim>\<open>try\<close> block throws
  exactly when the start-cycle command, the status update or the re-read throws.
\<close>

lemma handleStartMachine_try_throws:
  assumes "getMachine mid w = (Inr (Some m), w1)" and "status m = AWAITING_DROPOFF"
  shows "handleStartMachine_try mid w = (Inl e, wc) \<longleftrightarrow>
     startCycle mid w1 = (Inl e, wc)
     \<or> (\<exists>w2. startCycle mid w1 = (Inr (), w2)
          \<and> (updateMachineStatus mid RUNNING w2 = (Inl e, wc)
              \<or> (\<exists>w3. updateMachineStatus mid RUNNING w2 = (Inr (), w3)
                    \<and> getMachine mid w3 = (Inl e, wc))))"
  using assms
  by (auto simp: handleStartMachine_try_def bindE_def returnE_def cachePut_def
      split: prod.splits sum.splits option.splits)


section \<open>Assertions about runs\<close>

subsection \<open>Rules for assertions about runs\<close>

lemma valid_return: "valid (Q x) (returnE x) Q E"
  by (simp add: valid_def returnE_def)

lemma valid_bind:
  assumes "valid P m Q' E" and "\<And>x. valid (Q' x) (k x) Q E"
  shows "valid P (bindE m k) Q E"
  using assms by (fastforce simp: valid_def bindE_def split: prod.splits sum.splits)

lemma valid_weaken:
  assumes "valid P' m Q' E'" and "\<And>w. P w \<Longrightarrow> P' w" and "\<And>x w. Q' x w \<Longrightarrow> Q x w"
    and "\<And>w. E' w \<Longrightarrow> E w"
  shows "valid P m Q E"
  using assms by (fastforce simp: valid_def split: prod.splits sum.splits)

lemma valid_pre:
  assumes "valid P' m Q E" and "\<And>w. P w \<Longrightarrow> P' w"
  shows "valid P m Q E"
  using assms by (fastforce simp: valid_def split: prod.splits sum.splits)

lemma valid_return_pre: "(\<And>w. P w \<Longrightarrow> Q x w) \<Longrightarrow> valid P (returnE x) Q E"
  by (simp add: valid_def returnE_def)

lemma validT_tryCatch:
  assumes "valid P body Q E" and "\<And>e. validT E (handler e) Q"
  shows "validT P (tryCatch body handler) Q"
  using assms by (fastforce simp: valid_def validT_def tryCatch_def split: prod.splits sum.splits)

lemma validT_D: "validT P f Q \<Longrightarrow> P w \<Longrightarrow> Q (fst (f w)) (snd (f w))"
  by (auto simp: validT_def split: prod.splits)

subsection \<open>Keyed tables\<close>

lemma keyed_setStatus: "keyed (map (setStatus mid s) ms) = keyed ms"
  by (simp add: keyed_def setStatus_fields comp_def)

lemma keyed_setJobId: "keyed (map (setJobId mid j) ms) = keyed ms"
  by (simp add: keyed_def setJobId_fields comp_def)

lemma filter_absent:
  "mid \<notin> machineId ` set ms \<Longrightarrow> filter (\<lambda>m. machineId m = mid) ms = []"
  by (induction ms) auto

lemma keyed_filter:
  "keyed ms \<Longrightarrow> lookupMachine mid ms = Some x \<Longrightarrow> filter (\<lambda>m. machineId m = mid) ms = [x]"
  by (induction ms) (auto simp: keyed_def lookupMachine_def filter_absent split: if_splits)

lemma lookupMachine_None:
  "lookupMachine mid ms = None \<Longrightarrow> filter (\<lambda>m. machineId m = mid) ms = []"
  by (induction ms) (auto simp: lookupMachine_def split: if_splits)

lemma keyedWorld_outsideStep: "keyedWorld w \<Longrightarrow> keyedWorld (outsideStep w)"
  by (cases "outside w") (auto simp: keyedWorld_def outsideStep_def keyedChange_def split: option.splits)

lemma keyedWorld_tableCall: "keyedWorld w \<Longrightarrow> tableCall c w = (b, w1) \<Longrightarrow> keyedWorld w1"
  by (auto simp: keyedWorld_def tableCall_def split: list.splits)

lemma keyedWorld_observed: "keyedWorld (w\<lparr>observed := ob\<rparr>) = keyedWorld w"
  by (simp add: keyedWorld_def)

lemma keyedWorld_listMachinesAtLocation:
  "listMachinesAtLocation loc w = (r, w1) \<Longrightarrow> keyedWorld w \<Longrightarrow> keyedWorld w1"
  by (auto simp: listMachinesAtLocation_def Let_def keyedWorld_observed
      split: prod.splits bool.splits
      dest: keyedWorld_tableCall[OF keyedWorld_outsideStep])

lemma keyedWorld_getMachine:
  "getMachine mid w = (r, w1) \<Longrightarrow> keyedWorld w \<Longrightarrow> keyedWorld w1"
  by (auto simp: getMachine_def keyedWorld_observed
      split: prod.splits bool.splits option.splits
      dest: keyedWorld_tableCall[OF keyedWorld_outsideStep])

lemma validI:
  assumes "\<And>w r w'. P w \<Longrightarrow> m w = (r, w') \<Longrightarrow> (case r of Inl e \<Rightarrow> E w' | Inr x \<Rightarrow> Q x w')"
  shows "valid P m Q E"
  unfolding valid_def
proof (intro allI impI)
  fix w assume P: "P w"
  obtain r w' where run: "m w = (r, w')" by (cases "m w")
  from assms[OF P run] show "case m w of (Inl e, w') \<Rightarrow> E w' | (Inr x, w') \<Rightarrow> Q x w'"
    by (simp add: run split: sum.splits)
qed

lemma legalSince_same:
  "legalSince base w \<Longrightarrow> keyedWorld w' \<Longrightarrow> statusWrites w' = statusWrites w \<Longrightarrow> legalSince base w'"
  by (auto simp: legalSince_def)

subsection \<open>Each collaborator call and the legality of status writes\<close>

lemma legal_listMachinesAtLocation:
  "valid (legalSince base) (listMachinesAtLocation loc)
     (\<lambda>ms w. legalSince base w \<and> set ms \<subseteq> set (db w)) (legalSince base)"
proof (rule validI)
  fix w r w'
  assume L: "legalSince base w" and run: "listMachinesAtLocation loc w = (r, w')"
  have K: "keyedWorld w'"
    using keyedWorld_listMachinesAtLocation[OF run] L by (simp add: legalSince_def)
  have L': "legalSince base w'"
    using legalSince_same[OF L K] listMachinesAtLocation_fields[OF run] by simp
  show "case r of Inl e \<Rightarrow> legalSince base w' | Inr ms \<Rightarrow> legalSince base w' \<and> set ms \<subseteq> set (db w')"
  proof (cases r)
    case (Inl e)
    with L' show ?thesis by simp
  next
    case (Inr ms)
    with run have "ms = filter (\<lambda>m. locationId m = loc) (db w')"
      using listMachinesAtLocation_result by blast
    with L' Inr show ?thesis by auto
  qed
qed

lemma legal_getMachine:
  "valid (legalSince base) (getMachine mid)
     (\<lambda>r w. legalSince base w \<and> (\<forall>m. r = Some m \<longrightarrow> lookupMachine mid (db w) = Some m))
     (legalSince base)"
proof (rule validI)
  fix w r w'
  assume L: "legalSince base w" and run: "getMachine mid w = (r, w')"
  have K: "keyedWorld w'"
    using keyedWorld_getMachine[OF run] L by (simp add: legalSince_def)
  have L': "legalSince base w'"
    using legalSince_same[OF L K] getMachine_fields[OF run] by simp
  show "case r of Inl e \<Rightarrow> legalSince base w'
        | Inr x \<Rightarrow> legalSince base w' \<and> (\<forall>m. x = Some m \<longrightarrow> lookupMachine mid (db w') = Some m)"
  proof (cases r)
    case (Inl e)
    with L' show ?thesis by simp
  next
    case (Inr x)
    with run have "x = lookupMachine mid (db w')"
      using getMachine_result[of mid w x w'] getMachine_fields[OF run] by simp
    with L' Inr show ?thesis by auto
  qed
qed

lemma legal_startCycle:
  "valid (\<lambda>w. legalSince base w \<and> lookupMachine mid (db w) = Some m) (startCycle mid')
     (\<lambda>_ w. legalSince base w \<and> lookupMachine mid (db w) = Some m) (legalSince base)"
proof (rule validI)
  fix w r w'
  assume L: "legalSince base w \<and> lookupMachine mid (db w) = Some m"
    and run: "startCycle mid' w = (r, w')"
  note f = startCycle_fields[OF run]
  have K: "keyedWorld w'" using L f by (simp add: legalSince_def keyedWorld_def)
  have "legalSince base w'" using legalSince_same[of base w w'] L f K by simp
  with L f show "case r of Inl e \<Rightarrow> legalSince base w'
        | Inr x \<Rightarrow> legalSince base w' \<and> lookupMachine mid (db w') = Some m"
    by (simp split: sum.splits)
qed

lemma legal_updateMachineJobId:
  "valid (legalSince base) (updateMachineJobId mid j) (\<lambda>_. legalSince base) (legalSince base)"
proof (rule validI)
  fix w r w'
  assume L: "legalSince base w" and run: "updateMachineJobId mid j w = (r, w')"
  have K: "keyedWorld w'"
    using run L
    by (auto simp: updateMachineJobId_def legalSince_def keyedWorld_def keyed_setJobId
        split: prod.splits bool.splits dest!: tableCall_fields)
  have "legalSince base w'"
    using legalSince_same[of base w w'] L K updateMachineJobId_fields[OF run] by simp
  then show "case r of Inl e \<Rightarrow> legalSince base w' | Inr x \<Rightarrow> legalSince base w'"
    by (simp split: sum.splits)
qed

lemma legal_cachePut:
  "valid (legalSince base) (cachePut mid r) (\<lambda>_. legalSince base) (legalSince base)"
  by (rule validI) (auto simp: cachePut_def legalSince_def keyedWorld_def)

lemma legal_cacheGet:
  "valid (legalSince base) (cacheGet mid) (\<lambda>_. legalSince base) (legalSince base)"
  by (rule validI) (auto simp: cacheGet_def legalSince_def keyedWorld_def)

lemma legal_updateMachineStatus:
  "valid (\<lambda>w. legalSince base w \<and> lookupMachine mid (db w) = Some x \<and> legalWrite (mid, status x, s))
     (updateMachineStatus mid s) (\<lambda>_. legalSince base) (legalSince base)"
proof (rule validI)
  fix w r w'
  assume L: "legalSince base w \<and> lookupMachine mid (db w) = Some x \<and> legalWrite (mid, status x, s)"
    and run: "updateMachineStatus mid s w = (r, w')"
  obtain ts where ts: "statusWrites w = base @ ts" "list_all legalWrite ts" and K: "keyedWorld w"
    using L by (auto simp: legalSince_def)
  have fx: "filter (\<lambda>m. machineId m = mid) (db w) = [x]"
    using keyed_filter K L by (simp add: keyedWorld_def)
  obtain b w1 where tc: "tableCall (DbUpdateMachineStatus mid s) w = (b, w1)"
    by (cases "tableCall (DbUpdateMachineStatus mid s) w")
  note f = tableCall_fields[OF tc]
  have "legalSince base w'"
  proof (cases b)
    case True
    with run tc have "w' = w1" by (simp add: updateMachineStatus_def)
    with f ts K show ?thesis by (auto simp: legalSince_def keyedWorld_def)
  next
    case False
    with run tc have w': "statusWrites w' = statusWrites w1 @ [(mid, status x, s)]"
        "db w' = map (setStatus mid s) (db w1)" "outside w' = outside w1"
      using fx f by (auto simp: updateMachineStatus_def)
    have "statusWrites w' = base @ (ts @ [(mid, status x, s)])"
      using w'(1) f ts(1) by simp
    moreover have "list_all legalWrite (ts @ [(mid, status x, s)])"
      using ts(2) L by simp
    moreover have "keyedWorld w'"
      using K f w'(2,3) by (simp add: keyedWorld_def keyed_setStatus)
    ultimately show ?thesis unfolding legalSince_def by blast
  qed
  then show "case r of Inl e \<Rightarrow> legalSince base w' | Inr x \<Rightarrow> legalSince base w'"
    by (simp split: sum.splits)
qed

subsection \<open>The handlers and the legality of status writes\<close>

lemma inv_bind:
  "valid P m (\<lambda>_. P) P \<Longrightarrow> (\<And>x. valid P (k x) (\<lambda>_. P) P) \<Longrightarrow> valid P (bindE m k) (\<lambda>_. P) P"
  by (rule valid_bind)

lemma inv_return: "valid P (returnE x) (\<lambda>_. P) P"
  by (simp add: valid_def returnE_def)

lemma inv_option:
  "valid P a Q E \<Longrightarrow> (\<And>y. valid P (b y) Q E) \<Longrightarrow> valid P (case x of None \<Rightarrow> a | Some y \<Rightarrow> b y) Q E"
  by (cases x) auto

lemma legal_getMachine_inv:
  "valid (legalSince base) (getMachine mid) (\<lambda>_. legalSince base) (legalSince base)"
  by (rule valid_weaken[OF legal_getMachine]) auto

lemma legal_listMachinesAtLocation_inv:
  "valid (legalSince base) (listMachinesAtLocation loc) (\<lambda>_. legalSince base) (legalSince base)"
  by (rule valid_weaken[OF legal_listMachinesAtLocation]) auto

lemma legal_handleRequestMachine_try:
  "valid (legalSince base) (handleRequestMachine_try loc job) (\<lambda>_. legalSince base) (legalSince base)"
  unfolding handleRequestMachine_try_def
proof (rule valid_bind[OF legal_listMachinesAtLocation])
  fix machines
  let ?P = "\<lambda>w. legalSince base w \<and> set machines \<subseteq> set (db w)"
  show "valid ?P
     (case find (\<lambda>m. status m = AVAILABLE) machines of
        None \<Rightarrow> returnE \<lparr>statusCode = NOT_FOUND, machine = None\<rparr>
      | Some availableMachine \<Rightarrow>
          bindE (updateMachineStatus (machineId availableMachine) AWAITING_DROPOFF) (\<lambda>_.
          bindE (updateMachineJobId (machineId availableMachine) job) (\<lambda>_.
          bindE (getMachine (machineId availableMachine)) (\<lambda>updatedMachine.
            case updatedMachine of
              Some u \<Rightarrow>
                bindE (cachePut (machineId availableMachine) u) (\<lambda>_.
                returnE \<lparr>statusCode = OK, machine = Some u\<rparr>)
            | None \<Rightarrow> returnE internalServerError))))
     (\<lambda>_. legalSince base) (legalSince base)"
  proof (cases "find (\<lambda>m. status m = AVAILABLE) machines")
    case None
    then show ?thesis by (simp add: valid_def returnE_def)
  next
    case (Some a)
    then have a: "status a = AVAILABLE" "a \<in> set machines"
      by (auto simp: find_Some_iff)
    have upd: "valid ?P (updateMachineStatus (machineId a) AWAITING_DROPOFF)
        (\<lambda>_. legalSince base) (legalSince base)"
    proof (rule valid_pre[OF legal_updateMachineStatus[where x = a]])
      fix w assume "?P w"
      then show "legalSince base w \<and> lookupMachine (machineId a) (db w) = Some a
          \<and> legalWrite (machineId a, status a, AWAITING_DROPOFF)"
        using a lookupMachine_keyed[of "db w" a]
        by (auto simp: legalSince_def keyedWorld_def legalWrite_def allowedEdge_def)
    qed
    have tail: "valid (legalSince base)
        (bindE (updateMachineJobId (machineId a) job) (\<lambda>_.
          bindE (getMachine (machineId a)) (\<lambda>updatedMachine.
            case updatedMachine of
              Some u \<Rightarrow>
                bindE (cachePut (machineId a) u) (\<lambda>_.
                returnE \<lparr>statusCode = OK, machine = Some u\<rparr>)
            | None \<Rightarrow> returnE internalServerError)))
        (\<lambda>_. legalSince base) (legalSince base)"
      by (intro inv_bind inv_option inv_return legal_updateMachineJobId legal_getMachine_inv
          legal_cachePut)
    show ?thesis
      using Some by simp (rule valid_bind[OF upd], rule tail)
  qed
qed

lemma legal_handleGetMachine_try:
  "valid (legalSince base) (handleGetMachine_try mid) (\<lambda>_. legalSince base) (legalSince base)"
  unfolding handleGetMachine_try_def
  by (intro inv_bind inv_option inv_return legal_cacheGet legal_getMachine_inv legal_cachePut)

lemma legal_handleStartMachine_try:
  "valid (legalSince base) (handleStartMachine_try mid) (\<lambda>_. legalSince base) (legalSince base)"
  unfolding handleStartMachine_try_def
proof (rule valid_bind[OF legal_getMachine])
  fix mo
  let ?P = "\<lambda>w. legalSince base w \<and> (\<forall>m. mo = Some m \<longrightarrow> lookupMachine mid (db w) = Some m)"
  show "valid ?P
     (case mo of
        None \<Rightarrow> returnE \<lparr>statusCode = NOT_FOUND, machine = None\<rparr>
      | Some m \<Rightarrow>
          if status m \<noteq> AWAITING_DROPOFF
          then returnE \<lparr>statusCode = BAD_REQUEST, machine = Some m\<rparr>
          else
            bindE (startCycle mid) (\<lambda>_.
            bindE (updateMachineStatus mid RUNNING) (\<lambda>_.
            bindE (getMachine mid) (\<lambda>updatedMachine.
              case updatedMachine of
                Some u \<Rightarrow>
                  bindE (cachePut mid u) (\<lambda>_.
                  returnE \<lparr>statusCode = OK, machine = Some u\<rparr>)
              | None \<Rightarrow> returnE internalServerError))))
     (\<lambda>_. legalSince base) (legalSince base)"
  proof (cases mo)
    case None
    then show ?thesis by (simp add: valid_def returnE_def)
  next
    case (Some m)
    show ?thesis
    proof (cases "status m = AWAITING_DROPOFF")
      case False
      with Some show ?thesis by (simp add: valid_def returnE_def)
    next
      case True
      let ?Q = "\<lambda>w. legalSince base w \<and> lookupMachine mid (db w) = Some m"
      have start: "valid ?P (startCycle mid) (\<lambda>_. ?Q) (legalSince base)"
        by (rule valid_pre[OF legal_startCycle]) (simp add: Some)
      have upd: "valid ?Q (updateMachineStatus mid RUNNING) (\<lambda>_. legalSince base) (legalSince base)"
        by (rule valid_pre[OF legal_updateMachineStatus[where x = m]])
          (simp add: True legalWrite_def allowedEdge_def)
      have tail: "valid (legalSince base)
          (bindE (getMachine mid) (\<lambda>updatedMachine.
              case updatedMachine of
                Some u \<Rightarrow>
                  bindE (cachePut mid u) (\<lambda>_.
                  returnE \<lparr>statusCode = OK, machine = Some u\<rparr>)
              | None \<Rightarrow> returnE internalServerError))
          (\<lambda>_. legalSince base) (legalSince base)"
        by (intro inv_bind inv_option inv_return legal_getMachine_inv legal_cachePut)
      have "valid ?P
          (bindE (startCycle mid) (\<lambda>_.
            bindE (updateMachineStatus mid RUNNING) (\<lambda>_.
            bindE (getMachine mid) (\<lambda>updatedMachine.
              case updatedMachine of
                Some u \<Rightarrow>
                  bindE (cachePut mid u) (\<lambda>_.
                  returnE \<lparr>statusCode = OK, machine = Some u\<rparr>)
              | None \<Rightarrow> returnE internalServerError))))
          (\<lambda>_. legalSince base) (legalSince base)"
        by (rule valid_bind[OF start], rule valid_bind[OF upd], rule tail)
      then show ?thesis
        using Some True by simp
    qed
  qed
qed

lemma legal_handleStartMachine_inner:
  "valid (legalSince base) (handleStartMachine_inner mid) (\<lambda>_. legalSince base) (legalSince base)"
  unfolding handleStartMachine_inner_def
proof (rule valid_bind[OF legal_getMachine])
  fix mo
  let ?P = "\<lambda>w. legalSince base w \<and> (\<forall>m. mo = Some m \<longrightarrow> lookupMachine mid (db w) = Some m)"
  show "valid ?P
     (case mo of
        None \<Rightarrow> returnE None
      | Some m \<Rightarrow>
          if status m = ERROR
          then
            bindE (updateMachineStatus mid ERROR) (\<lambda>_.
            bindE (cachePut mid m) (\<lambda>_.
            returnE (Some \<lparr>statusCode = HARDWARE_ERROR, machine = Some m\<rparr>)))
          else returnE None)
     (\<lambda>_. legalSince base) (legalSince base)"
  proof (cases mo)
    case None
    then show ?thesis by (simp add: valid_def returnE_def)
  next
    case (Some m)
    show ?thesis
    proof (cases "status m = ERROR")
      case False
      with Some show ?thesis by (simp add: valid_def returnE_def)
    next
      case True
      have upd: "valid ?P (updateMachineStatus mid ERROR) (\<lambda>_. legalSince base) (legalSince base)"
        by (rule valid_pre[OF legal_updateMachineStatus[where x = m]])
          (simp add: Some True legalWrite_def)
      have tail: "valid (legalSince base)
          (bindE (cachePut mid m) (\<lambda>_.
            returnE (Some \<lparr>statusCode = HARDWARE_ERROR, machine = Some m\<rparr>)))
          (\<lambda>_. legalSince base) (legalSince base)"
        by (intro inv_bind inv_return legal_cachePut)
      have "valid ?P
          (bindE (updateMachineStatus mid ERROR) (\<lambda>_.
            bindE (cachePut mid m) (\<lambda>_.
            returnE (Some \<lparr>statusCode = HARDWARE_ERROR, machine = Some m\<rparr>))))
          (\<lambda>_. legalSince base) (legalSince base)"
        by (rule valid_bind[OF upd], rule tail)
      then show ?thesis
        using Some True by simp
    qed
  qed
qed

lemma legal_handleStartMachine_catch:
  "validT (legalSince base) (handleStartMachine_catch mid) (\<lambda>_. legalSince base)"
proof -
  have "validT (legalSince base)
      (tryCatch (handleStartMachine_inner mid) (\<lambda>innerError w'. (None, w'))) (\<lambda>_. legalSince base)"
    by (rule validT_tryCatch[OF legal_handleStartMachine_inner]) (simp add: validT_def)
  then show ?thesis
    by (auto simp: validT_def handleStartMachine_catch_def split: prod.splits option.splits)
qed

lemma legal_handlers:
  assumes "h = handleRequestMachine loc job \<or> h = handleGetMachine mid \<or> h = handleStartMachine mid"
  shows "validT (legalSince base) h (\<lambda>_. legalSince base)"
proof -
  have "validT (legalSince base) (handleRequestMachine loc job) (\<lambda>_. legalSince base)"
    unfolding handleRequestMachine_def
    by (rule validT_tryCatch[OF legal_handleRequestMachine_try]) (simp add: validT_def)
  moreover have "validT (legalSince base) (handleGetMachine mid) (\<lambda>_. legalSince base)"
    unfolding handleGetMachine_def
    by (rule validT_tryCatch[OF legal_handleGetMachine_try]) (simp add: validT_def)
  moreover have "validT (legalSince base) (handleStartMachine mid) (\<lambda>_. legalSince base)"
    unfolding handleStartMachine_def
    by (rule validT_tryCatch[OF legal_handleStartMachine_try]) (rule legal_handleStartMachine_catch)
  ultimately show ?thesis using assms by blast
qed


section \<open>Cache coherence in calm runs\<close>

subsection \<open>Calm runs\<close>






lemma calm_observed: "calm (w\<lparr>observed := ob\<rparr>) = calm w"
  by (simp add: calm_def)





subsection \<open>Each collaborator call and coherence, in calm runs\<close>

















subsection \<open>The handlers and coherence, in calm runs\<close>










section \<open>RequestMachine\<close>

text \<open>
  Claim C1, as amended. Let the listing of the location return a list containing a
  machine with status AVAILABLE, and let \<open>m\<close> be the first such machine in the order of
  the listing. Provided none of the three table calls that follow (the two field updates
  and the re-read) throws, and the re-read finds the table as the updates left it,
  RequestMachine returns OK with a record of \<open>m\<close>'s id that has status AWAITING_DROPOFF
  and the requested job id, and the cache afterwards maps that id to this very record.
  In a keyed table the record is \<open>m\<close> itself with these two fields set.
\<close>

theorem requestMachine_reserves_first_available:
  assumes "listMachinesAtLocation loc w = (Inr ms, w1)"
    and "ms = before @ m # after"
    and "\<forall>x \<in> set before. status x \<noteq> AVAILABLE"
    and "status m = AVAILABLE"
    and "quietTable 3 w1" and "noOutsideChange w1"
  shows "\<exists>r w'. handleRequestMachine loc job w = (\<lparr>statusCode = OK, machine = Some r\<rparr>, w')
     \<and> machineId r = machineId m \<and> status r = AWAITING_DROPOFF \<and> jobId r = Some job
     \<and> cache w' (machineId m) = Some r
     \<and> (keyed (db w1) \<longrightarrow> r = m\<lparr>status := AWAITING_DROPOFF, jobId := Some job\<rparr>)"
proof -
  let ?mid = "machineId m"
  have found: "find (\<lambda>m. status m = AVAILABLE) ms = Some m"
    using assms(2-4) by (simp add: find_first)
  have "m \<in> set ms" using assms(2) by simp
  then have member: "m \<in> set (db w1)"
    using listMachinesAtLocation_result[OF assms(1)] by simp
  then obtain x where x: "lookupMachine ?mid (db w1) = Some x"
    using lookupMachine_member by blast
  have q3: "quietTable (Suc 2) w1" using assms(5) by (simp add: numeral_3_eq_3)
  obtain w2 where w2: "updateMachineStatus ?mid AWAITING_DROPOFF w1 = (Inr (), w2)"
      "db w2 = map (setStatus ?mid AWAITING_DROPOFF) (db w1)" "quietTable 2 w2"
      "outside w2 = outside w1" "cache w2 = cache w1"
    using updateMachineStatus_quiet[OF q3] by blast
  have q2: "quietTable (Suc 1) w2" using w2(3) by (simp add: numeral_2_eq_2)
  obtain w3 where w3: "updateMachineJobId ?mid job w2 = (Inr (), w3)"
      "db w3 = map (setJobId ?mid job) (db w2)" "quietTable 1 w3"
      "outside w3 = outside w2" "cache w3 = cache w2"
    using updateMachineJobId_quiet[OF q2] by blast
  have q1: "quietTable (Suc 0) w3" using w3(3) by simp
  have "noOutsideChange w3"
    using assms(6) w2(4) w3(4) by (simp add: noOutsideChange_def)
  from getMachine_quiet[OF q1 this]
  obtain w4 where w4: "getMachine ?mid w3 = (Inr (lookupMachine ?mid (db w3)), w4)"
    by blast
  let ?r = "setJobId ?mid job (setStatus ?mid AWAITING_DROPOFF x)"
  have "lookupMachine ?mid (db w3) = Some ?r"
    using x by (simp add: w3(2) w2(2) lookupMachine_map setStatus_fields setJobId_fields)
  with w4 have reread: "getMachine ?mid w3 = (Inr (Some ?r), w4)" by simp
  let ?w' = "w4\<lparr>cache := (cache w4)(?mid \<mapsto> ?r), calls := calls w4 @ [CachePut ?mid ?r]\<rparr>"
  have run: "handleRequestMachine loc job w = (\<lparr>statusCode = OK, machine = Some ?r\<rparr>, ?w')"
    using assms(1) found w2(1) w3(1) reread
    by (simp add: handleRequestMachine_def tryCatch_def handleRequestMachine_try_def bindE_def
        returnE_def cachePut_def)
  have xid: "machineId x = ?mid" using lookupMachine_id[OF x] by simp
  have fields: "machineId ?r = ?mid \<and> status ?r = AWAITING_DROPOFF \<and> jobId ?r = Some job"
    using xid by (simp add: setStatus_fields setJobId_fields)
  have exact: "?r = m\<lparr>status := AWAITING_DROPOFF, jobId := Some job\<rparr>" if "keyed (db w1)"
    using lookupMachine_keyed[OF that member] x by (simp add: setStatus_def setJobId_def)
  from run fields exact show ?thesis by auto
qed

text \<open>
  The claim as stated fails: the listing contains AVAILABLE machines, the status update
  throws, and the result is INTERNAL_SERVER_ERROR with nothing cached.
\<close>

theorem requestMachine_reserves_first_available_counterexample:
  "fst (listMachinesAtLocation ''L1'' (availableWorld\<lparr>tableFaults := [False, True]\<rparr>))
     = Inr [machineAt ''m0'' ''L1'' RUNNING, machineAt ''m1'' ''L1'' AVAILABLE,
            machineAt ''m2'' ''L1'' AVAILABLE]
   \<and> fst (handleRequestMachine ''L1'' ''J1'' (availableWorld\<lparr>tableFaults := [False, True]\<rparr>))
     = \<lparr>statusCode = INTERNAL_SERVER_ERROR, machine = None\<rparr>
   \<and> cache (snd (handleRequestMachine ''L1'' ''J1'' (availableWorld\<lparr>tableFaults := [False, True]\<rparr>))) ''m1''
     = None"
  by (simp add: collaborator_defs handler_defs example_defs)

theorem requestMachine_reserves_first_available_witness:
  "fst (handleRequestMachine ''L1'' ''J1'' availableWorld)
     = \<lparr>statusCode = OK,
        machine = Some \<lparr>machineId = ''m1'', locationId = ''L1'', status = AWAITING_DROPOFF,
                         jobId = Some ''J1''\<rparr>\<rparr>
   \<and> cache (snd (handleRequestMachine ''L1'' ''J1'' availableWorld)) ''m1''
     = Some \<lparr>machineId = ''m1'', locationId = ''L1'', status = AWAITING_DROPOFF,
              jobId = Some ''J1''\<rparr>"
proof -
  let ?m0 = "machineAt ''m0'' ''L1'' RUNNING"
  let ?m1 = "machineAt ''m1'' ''L1'' AVAILABLE"
  let ?m2 = "machineAt ''m2'' ''L1'' AVAILABLE"
  let ?w1 = "snd (listMachinesAtLocation ''L1'' availableWorld)"
  have 1: "listMachinesAtLocation ''L1'' availableWorld = (Inr [?m0, ?m1, ?m2], ?w1)"
    by (rule withSnd) (simp add: collaborator_defs example_defs)
  have 2: "[?m0, ?m1, ?m2] = [?m0] @ ?m1 # [?m2]" by simp
  have 3: "\<forall>x \<in> set [?m0]. status x \<noteq> AVAILABLE" by (simp add: machineAt_def)
  have 4: "status ?m1 = AVAILABLE" by (simp add: machineAt_def)
  have 5: "quietTable 3 ?w1"
    by (simp add: quietTable_def collaborator_defs example_defs)
  have 6: "noOutsideChange ?w1"
    by (simp add: noOutsideChange_def collaborator_defs example_defs)
  have 7: "keyed (db ?w1)"
    by (simp add: keyed_def collaborator_defs example_defs)
  have 8: "machineId ?m1 = ''m1''" by (simp add: machineAt_def)
  from requestMachine_reserves_first_available[OF 1 2 3 4 5 6, of "''J1''"] 7 8
  obtain w' where
    "handleRequestMachine ''L1'' ''J1'' availableWorld
       = (\<lparr>statusCode = OK, machine = Some (?m1\<lparr>status := AWAITING_DROPOFF, jobId := Some ''J1''\<rparr>)\<rparr>, w')"
    "cache w' ''m1'' = Some (?m1\<lparr>status := AWAITING_DROPOFF, jobId := Some ''J1''\<rparr>)"
    by auto
  then show ?thesis by (simp add: machineAt_def)
qed

text \<open>
  Claim C9. When the listing of the location returns no machine with status AVAILABLE
  (an empty listing included), RequestMachine returns NOT_FOUND without a machine and
  ends in the world the listing left: the listing is the only call made (no table
  update, no cache write), the table is as the listing found it, no status write
  is recorded and the cache is as before.
\<close>

theorem requestMachine_none_available:
  assumes "listMachinesAtLocation loc w = (Inr ms, w1)"
    and "\<forall>m \<in> set ms. status m \<noteq> AVAILABLE"
  shows "handleRequestMachine loc job w = (\<lparr>statusCode = NOT_FOUND, machine = None\<rparr>, w1)
     \<and> calls w1 = calls w @ [DbListMachinesAtLocation loc]
     \<and> db w1 = tableFound w \<and> statusWrites w1 = statusWrites w
     \<and> cache w1 = cache w"
proof -
  have "find (\<lambda>m. status m = AVAILABLE) ms = None"
    using assms(2) by (simp add: find_None_iff)
  then have "handleRequestMachine loc job w = (\<lparr>statusCode = NOT_FOUND, machine = None\<rparr>, w1)"
    using assms(1)
    by (simp add: handleRequestMachine_def tryCatch_def handleRequestMachine_try_def bindE_def returnE_def)
  with listMachinesAtLocation_fields[OF assms(1)] show ?thesis by simp
qed

theorem requestMachine_none_available_witness:
  "handleRequestMachine ''L1'' ''J1''
     (world0\<lparr>db := [machineAt ''m1'' ''L1'' RUNNING, machineAt ''m2'' ''L2'' AVAILABLE]\<rparr>)
   = (\<lparr>statusCode = NOT_FOUND, machine = None\<rparr>,
      world0\<lparr>db := [machineAt ''m1'' ''L1'' RUNNING, machineAt ''m2'' ''L2'' AVAILABLE],
        calls := [DbListMachinesAtLocation ''L1''],
        observed := [''m1'' \<mapsto> machineAt ''m1'' ''L1'' RUNNING]\<rparr>)"
  using requestMachine_none_available[of "''L1''"
      "world0\<lparr>db := [machineAt ''m1'' ''L1'' RUNNING, machineAt ''m2'' ''L2'' AVAILABLE]\<rparr>"
      "[machineAt ''m1'' ''L1'' RUNNING]"
      "world0\<lparr>db := [machineAt ''m1'' ''L1'' RUNNING, machineAt ''m2'' ''L2'' AVAILABLE],
        calls := [DbListMachinesAtLocation ''L1''],
        observed := [''m1'' \<mapsto> machineAt ''m1'' ''L1'' RUNNING]\<rparr>" "''J1''"]
  by (simp add: listMachinesAtLocation_def tableCall_def outsideStep_def world0_def machineAt_def observeAll_def)


section \<open>GetMachine\<close>

text \<open>
  Claim C6. GetMachine on an id the cache holds returns OK with the cached record after
  the single call \<open>CacheGet\<close>: the table is not consulted and nothing but the call log
  changes. On a cache miss where the table read returns the machine, that record is put
  into the cache under the id and returned with OK. On a cache miss where the table
  read returns nothing the result is NOT_FOUND, the cache is as before and the only
  calls are the cache lookup and the table read.
\<close>

theorem getMachine_cache_aside:
  shows "(cache w mid = Some c \<longrightarrow>
            handleGetMachine mid w
              = (\<lparr>statusCode = OK, machine = Some c\<rparr>, w\<lparr>calls := calls w @ [CacheGet mid]\<rparr>))
     \<and> (cache w mid = None
          \<and> getMachine mid (w\<lparr>calls := calls w @ [CacheGet mid]\<rparr>) = (Inr (Some m), w1) \<longrightarrow>
            handleGetMachine mid w
              = (\<lparr>statusCode = OK, machine = Some m\<rparr>,
                 w1\<lparr>cache := (cache w1)(mid \<mapsto> m), calls := calls w1 @ [CachePut mid m]\<rparr>))
     \<and> (cache w mid = None
          \<and> getMachine mid (w\<lparr>calls := calls w @ [CacheGet mid]\<rparr>) = (Inr None, w1) \<longrightarrow>
            handleGetMachine mid w = (\<lparr>statusCode = NOT_FOUND, machine = None\<rparr>, w1)
            \<and> cache w1 = cache w
            \<and> calls w1 = calls w @ [CacheGet mid, DbGetMachine mid])"
  by (auto simp: handleGetMachine_def tryCatch_def handleGetMachine_try_def bindE_def returnE_def
      cacheGet_def cachePut_def dest: getMachine_fields)

theorem getMachine_cache_aside_witness:
  "handleGetMachine ''m1'' cachedWorld
     = (\<lparr>statusCode = OK, machine = Some (machineAt ''m1'' ''L1'' AWAITING_DROPOFF)\<rparr>,
        cachedWorld\<lparr>calls := [CacheGet ''m1'']\<rparr>)
   \<and> fst (handleGetMachine ''m1'' runningWorld)
     = \<lparr>statusCode = OK, machine = Some (machineAt ''m1'' ''L1'' RUNNING)\<rparr>
   \<and> cache (snd (handleGetMachine ''m1'' runningWorld)) ''m1'' = Some (machineAt ''m1'' ''L1'' RUNNING)
   \<and> fst (handleGetMachine ''unknown'' world0) = \<lparr>statusCode = NOT_FOUND, machine = None\<rparr>
   \<and> cache (snd (handleGetMachine ''unknown'' world0)) = (\<lambda>_. None)
   \<and> calls (snd (handleGetMachine ''unknown'' world0)) = [CacheGet ''unknown'', DbGetMachine ''unknown'']"
proof -
  let ?c = "machineAt ''m1'' ''L1'' AWAITING_DROPOFF"
  let ?m = "machineAt ''m1'' ''L1'' RUNNING"
  have hit: "cache cachedWorld ''m1'' = Some ?c \<and> calls cachedWorld = []"
    by (simp add: cachedWorld_def runningWorld_def world0_def)
  have miss: "cache runningWorld ''m1'' = None \<and> calls runningWorld = []"
    by (simp add: runningWorld_def world0_def)
  obtain w1 where found:
    "getMachine ''m1'' (runningWorld\<lparr>calls := calls runningWorld @ [CacheGet ''m1'']\<rparr>) = (Inr (Some ?m), w1)"
    by (simp add: getMachine_def tableCall_def outsideStep_def runningWorld_def world0_def lookupMachine_def machineAt_def)
  have miss0: "cache world0 ''unknown'' = None \<and> calls world0 = [] \<and> cache world0 = (\<lambda>_. None)"
    by (simp add: world0_def)
  obtain w2 where absent:
    "getMachine ''unknown'' (world0\<lparr>calls := calls world0 @ [CacheGet ''unknown'']\<rparr>) = (Inr None, w2)"
    by (simp add: getMachine_def tableCall_def outsideStep_def world0_def lookupMachine_def)
  show ?thesis
    using getMachine_cache_aside[of cachedWorld "''m1''" ?c]
      getMachine_cache_aside[of runningWorld "''m1''" _ ?m w1]
      getMachine_cache_aside[of world0 "''unknown''" _ _ w2] hit miss found miss0 absent
    by simp
qed


section \<open>StartMachine\<close>

text \<open>
  Claim C7. When the table read of StartMachine returns a machine whose status is not
  AWAITING_DROPOFF, the result is BAD_REQUEST carrying that record as read, and the
  operation ends in the world the read left: the read is the only call made (no
  start-cycle command, no table update, no cache write), the table is as the read
  found it, no status write is recorded and the cache is as before.
\<close>

theorem startMachine_rejects_wrong_status:
  assumes "getMachine mid w = (Inr (Some m), w1)"
    and "status m \<noteq> AWAITING_DROPOFF"
  shows "handleStartMachine mid w = (\<lparr>statusCode = BAD_REQUEST, machine = Some m\<rparr>, w1)
     \<and> calls w1 = calls w @ [DbGetMachine mid]
     \<and> db w1 = tableFound w \<and> statusWrites w1 = statusWrites w
     \<and> cache w1 = cache w"
proof -
  have "handleStartMachine mid w = (\<lparr>statusCode = BAD_REQUEST, machine = Some m\<rparr>, w1)"
    using assms
    by (simp add: handleStartMachine_def tryCatch_def handleStartMachine_try_def bindE_def returnE_def)
  with getMachine_fields[OF assms(1)] show ?thesis by simp
qed

theorem startMachine_rejects_wrong_status_witness:
  "fst (handleStartMachine ''m1'' runningWorld)
     = \<lparr>statusCode = BAD_REQUEST, machine = Some (machineAt ''m1'' ''L1'' RUNNING)\<rparr>
   \<and> calls (snd (handleStartMachine ''m1'' runningWorld)) = [DbGetMachine ''m1'']
   \<and> db (snd (handleStartMachine ''m1'' runningWorld)) = [machineAt ''m1'' ''L1'' RUNNING]
   \<and> cache (snd (handleStartMachine ''m1'' runningWorld)) ''m1'' = None"
proof -
  let ?m = "machineAt ''m1'' ''L1'' RUNNING"
  obtain w1 where 1: "getMachine ''m1'' runningWorld = (Inr (Some ?m), w1)"
    by (simp add: getMachine_def tableCall_def outsideStep_def runningWorld_def world0_def lookupMachine_def machineAt_def)
  have 2: "status ?m \<noteq> AWAITING_DROPOFF" by (simp add: machineAt_def)
  have "calls runningWorld = [] \<and> tableFound runningWorld = [?m]
      \<and> cache runningWorld = (\<lambda>_. None)"
    by (simp add: runningWorld_def world0_def tableFound_def outsideStep_def)
  with startMachine_rejects_wrong_status[OF 1 2] show ?thesis by simp
qed

text \<open>
  Claim C5, as amended. Let the table read of StartMachine return a machine with status
  AWAITING_DROPOFF and let the start-cycle command succeed. Provided neither the status
  update nor the re-read throws: after the update every stored record of the id has
  status RUNNING; when the re-read returns a record, that record is put into the cache
  under the id and returned with OK (and it has status RUNNING when the re-read finds the
  table as the update left it); when the re-read returns nothing, the result is
  INTERNAL_SERVER_ERROR without a machine.
\<close>

theorem startMachine_success:
  assumes "getMachine mid w = (Inr (Some m), w1)" and "status m = AWAITING_DROPOFF"
    and "startCycle mid w1 = (Inr (), w2)"
    and "updateMachineStatus mid RUNNING w2 = (Inr (), w3)"
    and "getMachine mid w3 = (Inr rr, w4)"
  shows "(\<forall>x \<in> set (db w3). machineId x = mid \<longrightarrow> status x = RUNNING)
     \<and> (rr = Some u \<longrightarrow>
          handleStartMachine mid w
            = (\<lparr>statusCode = OK, machine = Some u\<rparr>,
               w4\<lparr>cache := (cache w4)(mid \<mapsto> u), calls := calls w4 @ [CachePut mid u]\<rparr>)
          \<and> cache (snd (handleStartMachine mid w)) mid = Some u
          \<and> (tableFound w3 = db w3 \<longrightarrow> status u = RUNNING))
     \<and> (rr = None \<longrightarrow>
          handleStartMachine mid w = (\<lparr>statusCode = INTERNAL_SERVER_ERROR, machine = None\<rparr>, w4))"
proof -
  have stored: "\<forall>x \<in> set (db w3). machineId x = mid \<longrightarrow> status x = RUNNING"
    using status_after_update[of _ mid RUNNING "db w2"] updateMachineStatus_db[OF assms(4)]
    by simp
  have run: "handleStartMachine mid w =
      (case rr of
         Some u \<Rightarrow> (\<lparr>statusCode = OK, machine = Some u\<rparr>,
                    w4\<lparr>cache := (cache w4)(mid \<mapsto> u), calls := calls w4 @ [CachePut mid u]\<rparr>)
       | None \<Rightarrow> (\<lparr>statusCode = INTERNAL_SERVER_ERROR, machine = None\<rparr>, w4))"
    using assms
    by (simp add: handleStartMachine_def tryCatch_def handleStartMachine_try_def bindE_def
        returnE_def cachePut_def internalServerError_def split: option.splits)
  have fresh: "status u = RUNNING" if "rr = Some u" "tableFound w3 = db w3"
  proof -
    have "lookupMachine mid (db w3) = Some u"
      using getMachine_result[OF assms(5)] that by simp
    from lookupMachine_id[OF this] stored show ?thesis by blast
  qed
  show ?thesis
  proof (cases rr)
    case None
    with run stored show ?thesis by simp
  next
    case (Some v)
    with run stored fresh show ?thesis by simp
  qed
qed

text \<open>
  The claim as stated fails: the read returns the machine in AWAITING_DROPOFF, the
  start-cycle command succeeds, the status update throws; the result is
  INTERNAL_SERVER_ERROR, the stored status is still AWAITING_DROPOFF and nothing is
  cached.
\<close>

theorem startMachine_success_counterexample:
  "fst (getMachine ''m1'' (awaitingWorld\<lparr>tableFaults := [False, True]\<rparr>))
     = Inr (Some (machineAt ''m1'' ''L1'' AWAITING_DROPOFF))
   \<and> fst (startCycle ''m1'' (snd (getMachine ''m1'' (awaitingWorld\<lparr>tableFaults := [False, True]\<rparr>))))
     = Inr ()
   \<and> fst (handleStartMachine ''m1'' (awaitingWorld\<lparr>tableFaults := [False, True]\<rparr>))
     = \<lparr>statusCode = INTERNAL_SERVER_ERROR, machine = None\<rparr>
   \<and> db (snd (handleStartMachine ''m1'' (awaitingWorld\<lparr>tableFaults := [False, True]\<rparr>)))
     = [machineAt ''m1'' ''L1'' AWAITING_DROPOFF]
   \<and> cache (snd (handleStartMachine ''m1'' (awaitingWorld\<lparr>tableFaults := [False, True]\<rparr>))) ''m1''
     = None"
  by (simp add: collaborator_defs handler_defs example_defs)

theorem startMachine_success_witness:
  "fst (handleStartMachine ''m1'' awaitingWorld)
     = \<lparr>statusCode = OK, machine = Some (machineAt ''m1'' ''L1'' RUNNING)\<rparr>
   \<and> cache (snd (handleStartMachine ''m1'' awaitingWorld)) ''m1''
     = Some (machineAt ''m1'' ''L1'' RUNNING)
   \<and> fst (handleStartMachine ''m1'' vanishingWorld)
     = \<lparr>statusCode = INTERNAL_SERVER_ERROR, machine = None\<rparr>"
proof -
  let ?a = "machineAt ''m1'' ''L1'' AWAITING_DROPOFF"
  let ?r = "machineAt ''m1'' ''L1'' RUNNING"
  let ?w1 = "snd (getMachine ''m1'' awaitingWorld)"
  let ?w2 = "snd (startCycle ''m1'' ?w1)"
  let ?w3 = "snd (updateMachineStatus ''m1'' RUNNING ?w2)"
  let ?w4 = "snd (getMachine ''m1'' ?w3)"
  let ?v1 = "snd (getMachine ''m1'' vanishingWorld)"
  let ?v2 = "snd (startCycle ''m1'' ?v1)"
  let ?v3 = "snd (updateMachineStatus ''m1'' RUNNING ?v2)"
  let ?v4 = "snd (getMachine ''m1'' ?v3)"
  have 2: "status ?a = AWAITING_DROPOFF" by (simp add: machineAt_def)
  have 1: "getMachine ''m1'' awaitingWorld = (Inr (Some ?a), ?w1)"
    by (rule withSnd) (simp add: collaborator_defs example_defs)
  have 3: "startCycle ''m1'' ?w1 = (Inr (), ?w2)"
    by (rule withSnd) (simp add: collaborator_defs example_defs)
  have 4: "updateMachineStatus ''m1'' RUNNING ?w2 = (Inr (), ?w3)"
    by (rule withSnd) (simp add: collaborator_defs example_defs)
  have 5: "getMachine ''m1'' ?w3 = (Inr (Some ?r), ?w4)"
    by (rule withSnd) (simp add: collaborator_defs example_defs)
  have 7: "getMachine ''m1'' vanishingWorld = (Inr (Some ?a), ?v1)"
    by (rule withSnd) (simp add: collaborator_defs example_defs vanishingWorld_def)
  have 8: "startCycle ''m1'' ?v1 = (Inr (), ?v2)"
    by (rule withSnd) (simp add: collaborator_defs example_defs vanishingWorld_def)
  have 9: "updateMachineStatus ''m1'' RUNNING ?v2 = (Inr (), ?v3)"
    by (rule withSnd) (simp add: collaborator_defs example_defs vanishingWorld_def)
  have 10: "getMachine ''m1'' ?v3 = (Inr None, ?v4)"
    by (rule withSnd) (simp add: collaborator_defs example_defs vanishingWorld_def)
  show ?thesis
    using startMachine_success[OF 1 2 3 4 5, of ?r] startMachine_success[OF 7 2 8 9 10]
    by simp
qed

text \<open>
  Claim C2, as amended. Let the machine be read with status AWAITING_DROPOFF and let the
  \<^verbatim>\<open>try\<close> block then throw (the start-cycle command, the status update or the
  re-read fails). If the read in the \<^verbatim>\<open>catch\<close> block returns a record with status
  ERROR and the write that re-asserts ERROR does not throw, the result is HARDWARE_ERROR
  with that record, and the cache holds it under the id. In every other outcome (the
  re-assert write throws, the read in the \<^verbatim>\<open>catch\<close> block throws, returns nothing or
  returns a record whose status is not ERROR) the result is INTERNAL_SERVER_ERROR without
  a machine.
\<close>

theorem startMachine_fault_classification:
  assumes "getMachine mid w = (Inr (Some m), w1)" and "status m = AWAITING_DROPOFF"
    and "handleStartMachine_try mid w = (Inl e, wc)"
  shows "(getMachine mid wc = (Inr (Some r), w3) \<and> status r = ERROR
            \<and> updateMachineStatus mid ERROR w3 = (Inr (), w4) \<longrightarrow>
          handleStartMachine mid w
            = (\<lparr>statusCode = HARDWARE_ERROR, machine = Some r\<rparr>,
               w4\<lparr>cache := (cache w4)(mid \<mapsto> r), calls := calls w4 @ [CachePut mid r]\<rparr>)
          \<and> cache (snd (handleStartMachine mid w)) mid = Some r)
     \<and> (getMachine mid wc = (Inr (Some r), w3) \<and> status r = ERROR
            \<and> updateMachineStatus mid ERROR w3 = (Inl e', w4) \<longrightarrow>
          handleStartMachine mid w = (\<lparr>statusCode = INTERNAL_SERVER_ERROR, machine = None\<rparr>, w4))
     \<and> (getMachine mid wc = (Inl e', w3) \<longrightarrow>
          handleStartMachine mid w = (\<lparr>statusCode = INTERNAL_SERVER_ERROR, machine = None\<rparr>, w3))
     \<and> (getMachine mid wc = (Inr None, w3) \<longrightarrow>
          handleStartMachine mid w = (\<lparr>statusCode = INTERNAL_SERVER_ERROR, machine = None\<rparr>, w3))
     \<and> (getMachine mid wc = (Inr (Some r), w3) \<and> status r \<noteq> ERROR \<longrightarrow>
          handleStartMachine mid w = (\<lparr>statusCode = INTERNAL_SERVER_ERROR, machine = None\<rparr>, w3))"
proof -
  have "handleStartMachine mid w = handleStartMachine_catch mid wc"
    using assms(3) by (simp add: handleStartMachine_def tryCatch_def)
  then show ?thesis
    by (auto simp: handleStartMachine_catch_cases internalServerError_def)
qed

text \<open>
  The claim as stated fails: the machine is read in AWAITING_DROPOFF, the start-cycle
  command fails, the re-read succeeds and shows ERROR, the write that re-asserts ERROR
  throws; the result is INTERNAL_SERVER_ERROR.
\<close>

theorem startMachine_fault_classification_counterexample:
  "fst (getMachine ''m1'' (faultyDeviceWorld\<lparr>tableFaults := [False, False, True]\<rparr>))
     = Inr (Some (machineAt ''m1'' ''L1'' AWAITING_DROPOFF))
   \<and> fst (startCycle ''m1'' (snd (getMachine ''m1'' (faultyDeviceWorld\<lparr>tableFaults := [False, False, True]\<rparr>))))
     = Inl DeviceFault
   \<and> fst (getMachine ''m1''
        (snd (startCycle ''m1'' (snd (getMachine ''m1'' (faultyDeviceWorld\<lparr>tableFaults := [False, False, True]\<rparr>))))))
     = Inr (Some (machineAt ''m1'' ''L1'' ERROR))
   \<and> fst (handleStartMachine ''m1'' (faultyDeviceWorld\<lparr>tableFaults := [False, False, True]\<rparr>))
     = \<lparr>statusCode = INTERNAL_SERVER_ERROR, machine = None\<rparr>"
  by (simp add: collaborator_defs handler_defs example_defs faultyDeviceWorld_def)

theorem startMachine_fault_classification_witness:
  "fst (handleStartMachine ''m1'' faultyDeviceWorld)
     = \<lparr>statusCode = HARDWARE_ERROR, machine = Some (machineAt ''m1'' ''L1'' ERROR)\<rparr>
   \<and> cache (snd (handleStartMachine ''m1'' faultyDeviceWorld)) ''m1''
     = Some (machineAt ''m1'' ''L1'' ERROR)
   \<and> fst (handleStartMachine ''m1'' (awaitingWorld\<lparr>deviceFaults := [True]\<rparr>))
     = \<lparr>statusCode = INTERNAL_SERVER_ERROR, machine = None\<rparr>"
proof -
  let ?a = "machineAt ''m1'' ''L1'' AWAITING_DROPOFF"
  let ?e = "machineAt ''m1'' ''L1'' ERROR"
  obtain w1 where 1: "getMachine ''m1'' faultyDeviceWorld = (Inr (Some ?a), w1)"
    by (simp add: collaborator_defs example_defs faultyDeviceWorld_def)
  have 2: "status ?a = AWAITING_DROPOFF" by (simp add: machineAt_def)
  obtain wc where 3: "handleStartMachine_try ''m1'' faultyDeviceWorld = (Inl DeviceFault, wc)"
    by (simp add: collaborator_defs handler_defs example_defs faultyDeviceWorld_def)
  obtain w3 where 4: "getMachine ''m1'' wc = (Inr (Some ?e), w3)"
    using 3 by (auto simp add: collaborator_defs handler_defs example_defs faultyDeviceWorld_def)
  have 5: "status ?e = ERROR" by (simp add: machineAt_def)
  obtain w4 where 6: "updateMachineStatus ''m1'' ERROR w3 = (Inr (), w4)"
    using 3 4 by (auto simp add: collaborator_defs handler_defs example_defs faultyDeviceWorld_def)
  obtain v1 where 7: "getMachine ''m1'' (awaitingWorld\<lparr>deviceFaults := [True]\<rparr>) = (Inr (Some ?a), v1)"
    by (simp add: collaborator_defs example_defs)
  obtain vc where 8: "handleStartMachine_try ''m1'' (awaitingWorld\<lparr>deviceFaults := [True]\<rparr>) = (Inl DeviceFault, vc)"
    by (simp add: collaborator_defs handler_defs example_defs)
  obtain v3 where 9: "getMachine ''m1'' vc = (Inr (Some ?a), v3)"
    using 8 by (auto simp add: collaborator_defs handler_defs example_defs)
  have 10: "status ?a \<noteq> ERROR" by (simp add: machineAt_def)
  show ?thesis
    using startMachine_fault_classification[OF 1 2 3, of ?e w3 w4]
      startMachine_fault_classification[OF 7 2 8, of ?a v3] 4 5 6 9 10
    by simp
qed

text \<open>
  Claim C10. StartMachine can return HARDWARE_ERROR without a start-cycle command: the
  \<^verbatim>\<open>catch\<close> block covers the whole body, so when the first table read throws, the
  re-read returns a record with status ERROR and the write that re-asserts ERROR goes
  through, the result is HARDWARE_ERROR with that record, and the calls made are two
  reads, the status write and the cache write. The witness below is such an input.
\<close>

theorem hardware_error_without_device_call:
  assumes "getMachine mid w = (Inl e, w1)"
    and "getMachine mid w1 = (Inr (Some m), w2)"
    and "status m = ERROR"
    and "updateMachineStatus mid ERROR w2 = (Inr (), w3)"
  shows "handleStartMachine mid w
           = (\<lparr>statusCode = HARDWARE_ERROR, machine = Some m\<rparr>,
              w3\<lparr>cache := (cache w3)(mid \<mapsto> m), calls := calls w3 @ [CachePut mid m]\<rparr>)
     \<and> calls w3 @ [CachePut mid m]
           = calls w @ [DbGetMachine mid, DbGetMachine mid, DbUpdateMachineStatus mid ERROR, CachePut mid m]"
proof -
  have "handleStartMachine mid w = handleStartMachine_catch mid w1"
    using assms(1) by (simp add: handleStartMachine_def tryCatch_def handleStartMachine_try_def bindE_def)
  then have "handleStartMachine mid w
           = (\<lparr>statusCode = HARDWARE_ERROR, machine = Some m\<rparr>,
              w3\<lparr>cache := (cache w3)(mid \<mapsto> m), calls := calls w3 @ [CachePut mid m]\<rparr>)"
    using assms(2-4) by (simp add: handleStartMachine_catch_cases)
  moreover have "calls w3 = calls w @ [DbGetMachine mid, DbGetMachine mid, DbUpdateMachineStatus mid ERROR]"
    using getMachine_fields[OF assms(1)] getMachine_fields[OF assms(2)]
      updateMachineStatus_fields[OF assms(4)] by simp
  ultimately show ?thesis by simp
qed

theorem hardware_error_without_device_call_witness:
  "fst (handleStartMachine ''m1'' errorWorld)
     = \<lparr>statusCode = HARDWARE_ERROR, machine = Some (machineAt ''m1'' ''L1'' ERROR)\<rparr>
   \<and> calls (snd (handleStartMachine ''m1'' errorWorld))
     = [DbGetMachine ''m1'', DbGetMachine ''m1'', DbUpdateMachineStatus ''m1'' ERROR,
        CachePut ''m1'' (machineAt ''m1'' ''L1'' ERROR)]"
proof -
  let ?m = "machineAt ''m1'' ''L1'' ERROR"
  let ?w1 = "errorWorld\<lparr>calls := [DbGetMachine ''m1''], tableFaults := []\<rparr>"
  let ?w2 = "?w1\<lparr>calls := [DbGetMachine ''m1'', DbGetMachine ''m1''], observed := [''m1'' \<mapsto> ?m]\<rparr>"
  have 1: "getMachine ''m1'' errorWorld = (Inl StoreFault, ?w1)"
    by (simp add: getMachine_def tableCall_def outsideStep_def errorWorld_def world0_def)
  have 2: "getMachine ''m1'' ?w1 = (Inr (Some ?m), ?w2)"
    by (simp add: getMachine_def tableCall_def outsideStep_def errorWorld_def world0_def lookupMachine_def machineAt_def)
  have 3: "status ?m = ERROR" by (simp add: machineAt_def)
  obtain w3 where 4: "updateMachineStatus ''m1'' ERROR ?w2 = (Inr (), w3)"
    by (simp add: updateMachineStatus_def tableCall_def outsideStep_def errorWorld_def world0_def)
  have "calls errorWorld = []" by (simp add: errorWorld_def world0_def)
  with hardware_error_without_device_call[OF 1 2 3 4] show ?thesis by simp
qed



section \<open>Status transitions\<close>

text \<open>
  Claim C3. Let the table be keyed by machine id (and kept so by the other parties), and
  let \<open>h\<close> be any of the three operations, run from any such world, with any table and
  device faults and any changes met at its reads. Then every status write the operation
  records, \<open>(id, old, new)\<close> with \<open>old\<close> the status the stored record had when the write
  reached it, either leaves the status as it was or follows one of the edges
  AVAILABLE to AWAITING_DROPOFF, AWAITING_DROPOFF to RUNNING, AWAITING_DROPOFF to ERROR;
  and no write sets AVAILABLE. The table is keyed afterwards, so the statement carries
  over to every sequence of operations.
\<close>

theorem status_writes_follow_edges:
  assumes "keyedWorld w"
    and "h = handleRequestMachine loc job \<or> h = handleGetMachine mid \<or> h = handleStartMachine mid"
    and "h w = (response, w')"
  shows "statusWrites w' = statusWrites w @ newStatusWrites w w'
     \<and> (\<forall>(i, old, new) \<in> set (newStatusWrites w w').
           (old = new \<or> allowedEdge old new) \<and> new \<noteq> AVAILABLE)
     \<and> keyedWorld w'"
proof -
  have "legalSince (statusWrites w) w"
    using assms(1) by (simp add: legalSince_def)
  from validT_D[OF legal_handlers[OF assms(2)] this] assms(3)
  have "legalSince (statusWrites w) w'" by simp
  then obtain ts where ts: "statusWrites w' = statusWrites w @ ts" "list_all legalWrite ts"
    and K: "keyedWorld w'"
    by (auto simp: legalSince_def)
  have "newStatusWrites w w' = ts" by (simp add: newStatusWrites_def ts(1))
  with ts K show ?thesis
    by (auto simp: list_all_iff legalWrite_def)
qed

theorem status_writes_follow_edges_witness:
  "newStatusWrites availableWorld (snd (handleRequestMachine ''L1'' ''J1'' availableWorld))
     = [(''m1'', AVAILABLE, AWAITING_DROPOFF)]
   \<and> newStatusWrites awaitingWorld (snd (handleStartMachine ''m1'' awaitingWorld))
     = [(''m1'', AWAITING_DROPOFF, RUNNING)]
   \<and> newStatusWrites faultyDeviceWorld (snd (handleStartMachine ''m1'' faultyDeviceWorld))
     = [(''m1'', ERROR, ERROR)]
   \<and> allowedEdge AVAILABLE AWAITING_DROPOFF \<and> allowedEdge AWAITING_DROPOFF RUNNING
   \<and> keyedWorld (snd (handleRequestMachine ''L1'' ''J1'' availableWorld))
   \<and> keyedWorld (snd (handleStartMachine ''m1'' awaitingWorld))
   \<and> keyedWorld (snd (handleStartMachine ''m1'' faultyDeviceWorld))"
proof -
  have k1: "keyedWorld availableWorld"
    by (simp add: keyedWorld_def keyed_def example_defs)
  have k2: "keyedWorld awaitingWorld"
    by (simp add: keyedWorld_def keyed_def example_defs)
  have k3: "keyedWorld faultyDeviceWorld"
    by (simp add: keyedWorld_def keyed_def keyedChange_def example_defs faultyDeviceWorld_def)
  have e1: "newStatusWrites availableWorld (snd (handleRequestMachine ''L1'' ''J1'' availableWorld))
     = [(''m1'', AVAILABLE, AWAITING_DROPOFF)]"
    by (simp add: newStatusWrites_def collaborator_defs handler_defs example_defs)
  have e2: "newStatusWrites awaitingWorld (snd (handleStartMachine ''m1'' awaitingWorld))
     = [(''m1'', AWAITING_DROPOFF, RUNNING)]"
    by (simp add: newStatusWrites_def collaborator_defs handler_defs example_defs)
  have e3: "newStatusWrites faultyDeviceWorld (snd (handleStartMachine ''m1'' faultyDeviceWorld))
     = [(''m1'', ERROR, ERROR)]"
    by (simp add: newStatusWrites_def collaborator_defs handler_defs example_defs
        faultyDeviceWorld_def)
  show ?thesis
    using status_writes_follow_edges[where h = "handleRequestMachine ''L1'' ''J1''"
        and loc = "''L1''" and job = "''J1''" and mid = "''m1''" and w = availableWorld
        and response = "fst (handleRequestMachine ''L1'' ''J1'' availableWorld)"
        and w' = "snd (handleRequestMachine ''L1'' ''J1'' availableWorld)"]
      status_writes_follow_edges[where h = "handleStartMachine ''m1''"
        and loc = "''L1''" and job = "''J1''" and mid = "''m1''" and w = awaitingWorld
        and response = "fst (handleStartMachine ''m1'' awaitingWorld)"
        and w' = "snd (handleStartMachine ''m1'' awaitingWorld)"]
      status_writes_follow_edges[where h = "handleStartMachine ''m1''"
        and loc = "''L1''" and job = "''J1''" and mid = "''m1''" and w = faultyDeviceWorld
        and response = "fst (handleStartMachine ''m1'' faultyDeviceWorld)"
        and w' = "snd (handleStartMachine ''m1'' faultyDeviceWorld)"]
      k1 k2 k3 e1 e2 e3
    by simp
qed


section \<open>Cache and observations\<close>




section \<open>Token check\<close>

text \<open>
  Claim C8. Whatever the method and the path of a request, when the identity provider
  rejects its token, \<^verbatim>\<open>handle\<close> ends by throwing the error that carries UNAUTHORIZED
  and leaves the world as it was: the call log is unchanged, so no table, cache or
  device call has been made.
\<close>

theorem invalid_token_unauthorized:
  assumes "\<not> validateToken (token request) w"
  shows "handle request w = (Inl (HttpError UNAUTHORIZED ''Invalid token''), w)"
  using assms by (simp add: handle_def bindE_def checkToken_def throwE_def)

theorem invalid_token_unauthorized_witness:
  "handle \<lparr>httpMethod = ''POST'', path = ''/machine/m1/start'', token = ''wrong'',
            reqLocationId = [], reqJobId = []\<rparr> runningWorld
     = (Inl (HttpError UNAUTHORIZED ''Invalid token''), runningWorld)"
proof -
  have "\<not> validateToken ''wrong'' runningWorld"
    by (simp add: validateToken_def runningWorld_def world0_def)
  then show ?thesis
    using invalid_token_unauthorized[of "\<lparr>httpMethod = ''POST'', path = ''/machine/m1/start'',
            token = ''wrong'', reqLocationId = [], reqJobId = []\<rparr>" runningWorld]
    by simp
qed

end
